theory Spec2Isabelle
  imports Main "HOL-Library.Word"
begin

section \<open>The Majordomo worker (MDPW01), embedded from the Go source\<close>

text \<open>
  The worker is the type \<open>mdWorker\<close> with its methods \<open>Receive\<close>, \<open>Shutdown\<close>,
  \<open>reconnectToBroker\<close>, \<open>sendToBroker\<close> and \<open>cleanup\<close>, and its constructor
  \<open>newWorker\<close>. The source file holds two copies of the worker; the first one, with the
  logger, is embedded here (in the other copy a poll failure ends \<open>Receive\<close> with the
  poll's error, and nothing is logged).

  Everything the methods do to the outside (the transport library, the clock, the logger,
  the handler) is written into a \<open>world\<close>: a chronological trace of the calls made, and
  the answers of the outside as oracles indexed by how often they were asked.
\<close>

subsection \<open>Frames, commands and the observable events\<close>

text \<open>
  A frame is the content of a \<open>[]byte\<close>, a message a \<open>[][]byte\<close>. A nil slice and an
  empty slice have the same content and the same length; where the source tests a slice
  against nil (\<open>sendToBroker\<close>), the parameter is an \<open>option\<close> and \<open>None\<close> is nil.
\<close>

type_synonym frame = string
type_synonym message = "frame list"

text \<open>Instants and durations are nanosecond counts; \<open>Add\<close> is \<open>+\<close>, \<open>Before\<close> is \<open><\<close>.\<close>

type_synonym time = int
type_synonym duration = int

definition MD_WORKER :: string where
  "MD_WORKER = ''MDPW01''"

definition MD_READY :: string where
  "MD_READY = [CHR 0x01]"

definition MD_REQUEST :: string where
  "MD_REQUEST = [CHR 0x02]"

definition MD_REPLY :: string where
  "MD_REPLY = [CHR 0x03]"

definition MD_HEARTBEAT :: string where
  "MD_HEARTBEAT = [CHR 0x04]"

definition MD_DISCONNECT :: string where
  "MD_DISCONNECT = [CHR 0x05]"

datatype level = Debug | Warn | Error

text \<open>One constructor for each format string of the source, with the values it prints.\<close>

datatype logmsg =
    PollingFailed string
  | NotEnoughFrames nat
  | ReceivedRequest message
  | ReceivedDisconnect
  | ReceivedHeartbeat
  | UnknownCommand frame
  | NothingReceived "64 word" duration
  | AttemptingConnection string
  | ConnectedTo string
  | SentCommand string "message option"
  | AttemptingShutdown
  | ClosedAll

text \<open>Sockets are named by the order in which the context created them.\<close>

datatype event =
    NewSocket nat
  | SetLinger nat int
  | Connect nat string
  | Close nat
  | Term
  | Poll nat duration
  | RecvMessage nat message
  | SendMessage nat message
  | Call message
  | Sleep duration
  | Log level logmsg

record world =
  trace :: "event list"
  sockets :: nat
  reads :: nat
  clock :: "nat \<Rightarrow> time"
  sends :: nat
  send_error :: "nat \<Rightarrow> string option"

definition emit :: "event list \<Rightarrow> world \<Rightarrow> world" where
  "emit es wd = wd\<lparr>trace := trace wd @ es\<rparr>"

text \<open>
  Modelled from the spec: the helpers \<open>logDebug\<close>, \<open>logWarn\<close> and \<open>logError\<close> are called
  by the worker but are not among the sources. The spec makes the logger a diagnostics
  sink with no semantic role, so each call adds one record to the trace and does
  nothing else.
\<close>

definition logDebug :: "logmsg \<Rightarrow> world \<Rightarrow> world" where
  "logDebug m wd = emit [Log Debug m] wd"

definition logWarn :: "logmsg \<Rightarrow> world \<Rightarrow> world" where
  "logWarn m wd = emit [Log Warn m] wd"

definition logError :: "logmsg \<Rightarrow> world \<Rightarrow> world" where
  "logError m wd = emit [Log Error m] wd"

text \<open>\<open>time.Now()\<close>: the next reading of the clock.\<close>

definition timeNow :: "world \<Rightarrow> time \<times> world" where
  "timeNow wd = (clock wd (reads wd), wd\<lparr>reads := Suc (reads wd)\<rparr>)"

subsection \<open>The shutdown channel\<close>

text \<open>
  A Go channel of capacity \<open>capacity\<close>: the values buffered, and the value of a sender
  that is parked on it. A send returns at once when the buffer has room; otherwise the
  sender parks until a receiver takes its value. The receiver of this program never
  parks: it is the receive case of a \<open>select\<close> with a \<open>default\<close>.
\<close>

record chan =
  capacity :: nat
  buffer :: "bool list"
  parked :: "bool option"

definition make_chan :: "nat \<Rightarrow> chan" where
  "make_chan n = \<lparr>capacity = n, buffer = [], parked = None\<rparr>"

datatype sender = Returned | Parked

definition chan_send :: "bool \<Rightarrow> chan \<Rightarrow> sender \<times> chan" where
  "chan_send v c =
     (if length (buffer c) < capacity c then (Returned, c\<lparr>buffer := buffer c @ [v]\<rparr>)
      else (Parked, c\<lparr>parked := Some v\<rparr>))"

text \<open>
  The receive case of the \<open>select\<close>: the oldest buffered value if there is one (a parked
  sender then moves its value into the buffer and returns), else the value of a parked
  sender, who returns; \<open>None\<close> is the \<open>default\<close> case.
\<close>

definition chan_try_recv :: "chan \<Rightarrow> bool option \<times> chan" where
  "chan_try_recv c =
     (case buffer c of
        v # vs \<Rightarrow>
          (case parked c of
             None \<Rightarrow> (Some v, c\<lparr>buffer := vs\<rparr>)
           | Some u \<Rightarrow> (Some v, c\<lparr>buffer := vs @ [u], parked := None\<rparr>))
      | [] \<Rightarrow>
          (case parked c of
             None \<Rightarrow> (None, c)
           | Some u \<Rightarrow> (Some u, c\<lparr>parked := None\<rparr>)))"

subsection \<open>The worker\<close>

text \<open>
  \<open>int\<close> is the 64-bit signed integer of the usual targets: \<open>liveness - 1\<close> wraps, and
  the comparison with 0 reads the word as two's complement. \<open>socket\<close> is \<open>None\<close> for the
  nil pointer. The handler is an opaque function from payload frames to reply frames.
\<close>

record mdWorker =
  shutdown :: chan
  brokerAddress :: string
  serviceName :: string
  heartbeat :: duration
  reconnect :: duration
  pollInterval :: duration
  maxLivenessCount :: "64 word"
  liveness :: "64 word"
  heartbeatAt :: time
  socket :: "nat option"
  workerAction :: "message \<Rightarrow> message"

datatype panic = NilSocket | SliceBounds nat nat

datatype 'a res = Ok 'a world | Panic panic mdWorker world

text \<open>
  \<open>sendToBroker\<close>: the three header frames, then the \<open>serviceName\<close> argument unless nil,
  then the frames of \<open>msg\<close> unless nil; one \<open>SendMessage\<close> on the current socket, one
  debug record whatever the send returned, and the error of the send as the result.
\<close>

definition sendToBroker ::
  "string \<Rightarrow> frame option \<Rightarrow> message option \<Rightarrow> mdWorker \<Rightarrow> world \<Rightarrow> (string option) res" where
  "sendToBroker command sn msg w wd =
     (let workerMessage = ['''', MD_WORKER, command];
          workerMessage1 = (case sn of None \<Rightarrow> workerMessage | Some f \<Rightarrow> workerMessage @ [f]);
          workerMessage2 = (case msg of None \<Rightarrow> workerMessage1 | Some fs \<Rightarrow> workerMessage1 @ fs)
      in case socket w of
           None \<Rightarrow> Panic NilSocket w wd
         | Some s \<Rightarrow>
             (let err = send_error wd (sends wd);
                  wd1 = emit [SendMessage s workerMessage2] (wd\<lparr>sends := Suc (sends wd)\<rparr>);
                  wd2 = logDebug (SentCommand command msg) wd1
              in Ok err wd2))"

text \<open>
  \<open>reconnectToBroker\<close>: close the old socket if there is one, create a DEALER socket,
  set linger 0, connect, send READY with the service name (\<open>[]byte(w.serviceName)\<close> is
  never nil), refill the liveness and set the heartbeat deadline from a fresh reading of
  the clock. Every error of the transport is dropped; the named result \<open>err\<close> is never
  assigned, so the call cannot report a failure.
\<close>

definition reconnectToBroker :: "mdWorker \<Rightarrow> world \<Rightarrow> mdWorker res" where
  "reconnectToBroker w wd =
     (let wd1 = (case socket w of None \<Rightarrow> wd | Some old \<Rightarrow> emit [Close old] wd);
          wd2 = logDebug (AttemptingConnection (brokerAddress w)) wd1;
          s = sockets wd2;
          wd3 = emit [NewSocket s] (wd2\<lparr>sockets := Suc s\<rparr>);
          w1 = w\<lparr>socket := Some s\<rparr>;
          wd4 = emit [SetLinger s 0] wd3;
          wd5 = emit [Connect s (brokerAddress w1)] wd4;
          wd6 = logDebug (ConnectedTo (brokerAddress w1)) wd5
      in case sendToBroker MD_READY (Some (serviceName w1)) None w1 wd6 of
           Panic p w' wd' \<Rightarrow> Panic p w' wd'
         | Ok e wd7 \<Rightarrow>
             (let w2 = w1\<lparr>liveness := maxLivenessCount w1\<rparr>;
                  (now, wd8) = timeNow wd7
              in Ok (w2\<lparr>heartbeatAt := now + heartbeat w2\<rparr>) wd8))"

text \<open>\<open>newWorker\<close>: the fields, an unbuffered shutdown channel, liveness 0, then a reconnect.\<close>

definition newWorker ::
  "string \<Rightarrow> string \<Rightarrow> duration \<Rightarrow> duration \<Rightarrow> duration \<Rightarrow> 64 word \<Rightarrow> (message \<Rightarrow> message)
     \<Rightarrow> world \<Rightarrow> mdWorker res" where
  "newWorker addr name hb rc pi maxl action wd =
     reconnectToBroker
       \<lparr>shutdown = make_chan 0, brokerAddress = addr, serviceName = name, heartbeat = hb,
        reconnect = rc, pollInterval = pi, maxLivenessCount = maxl, liveness = 0,
        heartbeatAt = 0, socket = None, workerAction = action\<rparr> wd"

definition cleanup :: "mdWorker \<Rightarrow> world \<Rightarrow> world" where
  "cleanup w wd =
     (let wd1 = (case socket w of None \<Rightarrow> wd | Some s \<Rightarrow> emit [Close s] wd);
          wd2 = emit [Term] wd1
      in logDebug ClosedAll wd2)"

text \<open>\<open>Shutdown\<close>: one debug record, then the send on the shutdown channel.\<close>

definition Shutdown :: "mdWorker \<Rightarrow> world \<Rightarrow> sender \<times> mdWorker \<times> world" where
  "Shutdown w wd =
     (let wd1 = logDebug AttemptingShutdown wd;
          (r, c) = chan_send True (shutdown w)
      in (r, w\<lparr>shutdown := c\<rparr>, wd1))"

subsection \<open>One turn of the loop of \<open>Receive\<close>\<close>

text \<open>
  What the outside answers in one turn: the \<open>select\<close> finds the shutdown signal, or it
  does not and the poll fails, times out with nothing to read, or reports the socket
  readable, and then \<open>RecvMessageBytes\<close> yields a message (no frames at all when the
  receive failed: its error is dropped).
\<close>

datatype poll_result = PollFailed string | PollTimeout | PollReadable message

datatype input = ShutdownSignal | PollResult poll_result

text \<open>
  A turn ends by going round again (\<open>Continue\<close>, with the worker, the named result
  \<open>msg\<close> and the world), by returning \<open>msg\<close> and \<open>err\<close>, or by a run-time panic.
\<close>

datatype step =
    Continue mdWorker message world
  | Return message "string option" mdWorker world
  | Panicked panic mdWorker world

text \<open>Lines 107 to 110: the heartbeat, due when the deadline is before the clock's reading.\<close>

definition heartbeatCheck :: "mdWorker \<Rightarrow> message \<Rightarrow> world \<Rightarrow> step" where
  "heartbeatCheck w msg wd =
     (let (now, wd1) = timeNow wd in
      if heartbeatAt w < now then
        (case sendToBroker MD_HEARTBEAT None None w wd1 of
           Panic p w' wd' \<Rightarrow> Panicked p w' wd'
         | Ok e wd2 \<Rightarrow>
             (let (now', wd3) = timeNow wd2
              in Continue (w\<lparr>heartbeatAt := now' + heartbeat w\<rparr>) msg wd3))
      else Continue w msg wd1)"

text \<open>
  The \<open>switch\<close> on \<open>string(msg[2])\<close>, entered with at least 3 frames. In the REQUEST case
  the argument \<open>msg[5:]\<close> of the first log call is evaluated first, and Go panics on a
  slice whose low bound 5 exceeds the length; \<open>msg[3]\<close> is read after it. The frames of
  a received message are never nil, so \<open>replyTo\<close> is not; \<open>reply\<close> is one nil frame
  followed by the handler's frames and is never nil as a slice.
\<close>

definition dispatch :: "message \<Rightarrow> mdWorker \<Rightarrow> world \<Rightarrow> step" where
  "dispatch m w wd =
     (let command = m ! 2 in
      if command = MD_REQUEST then
        (if length m < 5 then Panicked (SliceBounds 5 (length m)) w wd
         else
           (let wd1 = logDebug (ReceivedRequest (drop 5 m)) wd;
                replyTo = m ! 3;
                actionResponse = workerAction w (drop 5 m);
                wd2 = emit [Call (drop 5 m)] wd1;
                reply = [''''] @ actionResponse
            in case sendToBroker MD_REPLY (Some replyTo) (Some reply) w wd2 of
                 Panic p w' wd' \<Rightarrow> Panicked p w' wd'
               | Ok e wd3 \<Rightarrow> Return actionResponse None w wd3))
      else if command = MD_DISCONNECT then
        (case reconnectToBroker w (logDebug ReceivedDisconnect wd) of
           Panic p w' wd' \<Rightarrow> Panicked p w' wd'
         | Ok w1 wd1 \<Rightarrow> heartbeatCheck w1 m wd1)
      else if command = MD_HEARTBEAT then
        heartbeatCheck w m (logDebug ReceivedHeartbeat wd)
      else
        heartbeatCheck w m (logDebug (UnknownCommand (m ! 2)) wd))"

text \<open>
  The body of the \<open>for\<close> loop. The poller dereferences the socket, so a nil socket
  panics there. The error of a poll is stored in the named result \<open>err\<close>, which every
  later turn overwrites before it can be returned; the bare \<open>return\<close> of the REQUEST
  case therefore returns the nil error of the turn's own successful poll.
\<close>

fun iteration :: "input \<Rightarrow> mdWorker \<Rightarrow> message \<Rightarrow> world \<Rightarrow> step" where
  "iteration ShutdownSignal w msg wd =
     Return msg (Some ''Graceful shutdown'') w (cleanup w wd)"
| "iteration (PollResult r) w msg wd =
     (case socket w of
        None \<Rightarrow> Panicked NilSocket w wd
      | Some s \<Rightarrow>
          (let wd1 = emit [Poll s (pollInterval w)] wd in
           case r of
             PollFailed e \<Rightarrow> Continue w msg (logError (PollingFailed e) wd1)
           | PollReadable m \<Rightarrow>
               (let wd2 = emit [RecvMessage s m] wd1 in
                if length m < 3 then Continue w m (logError (NotEnoughFrames (length m)) wd2)
                else dispatch m (w\<lparr>liveness := maxLivenessCount w\<rparr>) wd2)
           | PollTimeout \<Rightarrow>
               (let w1 = w\<lparr>liveness := liveness w - 1\<rparr> in
                if sint (liveness w1) \<le> 0 then
                  (let wd2 = logWarn (NothingReceived (maxLivenessCount w1) (reconnect w1)) wd1;
                       wd3 = emit [Sleep (reconnect w1)] wd2
                   in case reconnectToBroker w1 wd3 of
                        Panic p w' wd' \<Rightarrow> Panicked p w' wd'
                      | Ok w2 wd4 \<Rightarrow> heartbeatCheck w2 msg wd4)
                else heartbeatCheck w1 msg wd1)))"

subsection \<open>\<open>Receive\<close>\<close>

text \<open>
  The loop runs on the answers of the outside, one per turn. It has no bound of its own:
  when the answers run out before a turn returned, the call is still inside the loop
  (\<open>Looping\<close>), with the state it has reached.
\<close>

datatype outcome =
    Looping mdWorker message world
  | Returns message "string option" mdWorker world
  | Panics panic mdWorker world

fun Receive_loop :: "input list \<Rightarrow> mdWorker \<Rightarrow> message \<Rightarrow> world \<Rightarrow> outcome" where
  "Receive_loop [] w msg wd = Looping w msg wd"
| "Receive_loop (i # ins) w msg wd =
     (case iteration i w msg wd of
        Continue w' msg' wd' \<Rightarrow> Receive_loop ins w' msg' wd'
      | Return m e w' wd' \<Rightarrow> Returns m e w' wd'
      | Panicked p w' wd' \<Rightarrow> Panics p w' wd')"

text \<open>The named results start as nil.\<close>

definition Receive :: "input list \<Rightarrow> mdWorker \<Rightarrow> world \<Rightarrow> outcome" where
  "Receive ins w wd = Receive_loop ins w [] wd"

subsection \<open>\<open>Receive\<close> beside a caller of \<open>Shutdown\<close>\<close>

text \<open>
  In \<open>Receive_loop\<close> the case that the \<open>select\<close> takes is given with the turn; here the
  channel decides it. The \<open>select\<close> at the top of a turn is the receive on the worker's
  channel that never parks: with a value it takes the shutdown case, without one the
  default case, where the poll gives its answer; the turn then runs on the worker with
  the channel as the receive left it. The other goroutine calls \<open>Shutdown\<close> between two
  checks of the loop (one call: the spec leaves a second one undefined); its call is
  blocked as long as \<open>parked\<close> holds its value, and has returned once the channel has
  no sender parked.
\<close>

datatype action = CallShutdown | Turn poll_result

definition select_shutdown :: "mdWorker \<Rightarrow> poll_result \<Rightarrow> input \<times> mdWorker" where
  "select_shutdown w r =
     (case chan_try_recv (shutdown w) of
        (Some v, c) \<Rightarrow> (ShutdownSignal, w\<lparr>shutdown := c\<rparr>)
      | (None, c) \<Rightarrow> (PollResult r, w\<lparr>shutdown := c\<rparr>))"

fun Receive_live :: "action list \<Rightarrow> mdWorker \<Rightarrow> message \<Rightarrow> world \<Rightarrow> outcome" where
  "Receive_live [] w msg wd = Looping w msg wd"
| "Receive_live (CallShutdown # as) w msg wd =
     (case Shutdown w wd of (r, w1, wd1) \<Rightarrow> Receive_live as w1 msg wd1)"
| "Receive_live (Turn r # as) w msg wd =
     (case select_shutdown w r of
        (i, w1) \<Rightarrow>
          (case iteration i w1 msg wd of
             Continue w' msg' wd' \<Rightarrow> Receive_live as w' msg' wd'
           | Return m e w' wd' \<Rightarrow> Returns m e w' wd'
           | Panicked p w' wd' \<Rightarrow> Panics p w' wd'))"

subsection \<open>Reading a turn and a trace\<close>

fun step_worker :: "step \<Rightarrow> mdWorker" where
  "step_worker (Continue w msg wd) = w"
| "step_worker (Return m e w wd) = w"
| "step_worker (Panicked p w wd) = w"

fun step_world :: "step \<Rightarrow> world" where
  "step_world (Continue w msg wd) = wd"
| "step_world (Return m e w wd) = wd"
| "step_world (Panicked p w wd) = wd"

text \<open>A turn's result in a world whose sends answer \<open>f\<close>.\<close>

fun with_send_error :: "(nat \<Rightarrow> string option) \<Rightarrow> step \<Rightarrow> step" where
  "with_send_error f (Continue w msg wd) = Continue w msg (wd\<lparr>send_error := f\<rparr>)"
| "with_send_error f (Return m e w wd) = Return m e w (wd\<lparr>send_error := f\<rparr>)"
| "with_send_error f (Panicked p w wd) = Panicked p w (wd\<lparr>send_error := f\<rparr>)"

text \<open>The events added between two worlds.\<close>

definition since :: "world \<Rightarrow> world \<Rightarrow> event list" where
  "since wd wd' = drop (length (trace wd)) (trace wd')"

text \<open>The events of a reconnect on the socket the context creates as number \<open>n\<close>.\<close>

definition closing :: "mdWorker \<Rightarrow> event list" where
  "closing w = (case socket w of None \<Rightarrow> [] | Some old \<Rightarrow> [Close old])"

definition greeting :: "string \<Rightarrow> string \<Rightarrow> nat \<Rightarrow> event list" where
  "greeting name addr n =
     [NewSocket n, SetLinger n 0, Connect n addr, Log Debug (ConnectedTo addr),
      SendMessage n ['''', MD_WORKER, MD_READY, name]]"

definition handshake :: "mdWorker \<Rightarrow> nat \<Rightarrow> event list" where
  "handshake w n =
     closing w @ [Log Debug (AttemptingConnection (brokerAddress w))] @
     greeting (serviceName w) (brokerAddress w) n @ [Log Debug (SentCommand MD_READY None)]"

text \<open>The events of an outbound heartbeat on socket \<open>s\<close>.\<close>

definition beat :: "nat \<Rightarrow> event list" where
  "beat s =
     [SendMessage s ['''', MD_WORKER, MD_HEARTBEAT], Log Debug (SentCommand MD_HEARTBEAT None)]"

text \<open>\<open>k\<close> turns in a row whose poll times out with nothing to read.\<close>

definition silent :: "nat \<Rightarrow> input list" where
  "silent k = replicate k (PollResult PollTimeout)"

text \<open>
  The turns that reach the heartbeat check at the end of the loop body: a poll that
  timed out, and a message of at least 3 frames that is not a REQUEST. A failed poll and
  a message of fewer than 3 frames take a \<open>continue\<close>, a REQUEST and the shutdown
  leave the loop.
\<close>

fun checks_deadline :: "input \<Rightarrow> bool" where
  "checks_deadline ShutdownSignal = False"
| "checks_deadline (PollResult (PollFailed e)) = False"
| "checks_deadline (PollResult PollTimeout) = True"
| "checks_deadline (PollResult (PollReadable m)) = (3 \<le> length m \<and> m ! 2 \<noteq> MD_REQUEST)"

text \<open>The turns that reconnect: the liveness has run out, or a DISCONNECT was read.\<close>

fun reconnects :: "mdWorker \<Rightarrow> input \<Rightarrow> bool" where
  "reconnects w (PollResult PollTimeout) = (sint (liveness w - 1) \<le> 0)"
| "reconnects w (PollResult (PollReadable m)) = (3 \<le> length m \<and> m ! 2 = MD_DISCONNECT)"
| "reconnects w i = False"

subsection \<open>What a trace says\<close>

definition is_ready :: "message \<Rightarrow> bool" where
  "is_ready m = (3 \<le> length m \<and> m ! 2 = MD_READY)"

definition is_beat :: "message \<Rightarrow> bool" where
  "is_beat m = (3 \<le> length m \<and> m ! 2 = MD_HEARTBEAT)"

text \<open>The events of a reconnect: sleeps, closes, new sockets, READY.\<close>

fun reconnecting :: "event \<Rightarrow> bool" where
  "reconnecting (Sleep d) = True"
| "reconnecting (Close n) = True"
| "reconnecting (NewSocket n) = True"
| "reconnecting (SendMessage n m) = is_ready m"
| "reconnecting e = False"

text \<open>The sends that announce the worker: READY and HEARTBEAT.\<close>

fun announcing :: "event \<Rightarrow> bool" where
  "announcing (SendMessage n m) = (is_ready m \<or> is_beat m)"
| "announcing e = False"

fun is_new :: "event \<Rightarrow> bool" where
  "is_new (NewSocket n) = True"
| "is_new e = False"

fun ready_sent :: "event \<Rightarrow> bool" where
  "ready_sent (SendMessage n m) = is_ready m"
| "ready_sent e = False"

text \<open>The messages sent on socket \<open>n\<close>, in the order of the trace.\<close>

fun sends_on :: "nat \<Rightarrow> event list \<Rightarrow> message list" where
  "sends_on n [] = []"
| "sends_on n (SendMessage k m # es) = (if k = n then m # sends_on n es else sends_on n es)"
| "sends_on n (e # es) = sends_on n es"

text \<open>
  Every connect is followed at once by the READY with the service name on the same
  socket: only the log record of the connect lies between them.
\<close>

fun greeted :: "string \<Rightarrow> event list \<Rightarrow> bool" where
  "greeted name [] = True"
| "greeted name (Connect n a # es) =
     (case es of
        l # s # rest \<Rightarrow>
          l = Log Debug (ConnectedTo a) \<and> s = SendMessage n ['''', MD_WORKER, MD_READY, name] \<and>
          greeted name es
      | _ \<Rightarrow> False)"
| "greeted name (e # es) = greeted name es"

subsection \<open>Executions\<close>

text \<open>
  A worker built by \<open>newWorker\<close> in a context that has created no socket yet, and then
  any turns of the loop, in any calls of \<open>Receive\<close>.
\<close>

inductive reachable :: "mdWorker \<Rightarrow> world \<Rightarrow> bool" where
  constructed:
    "newWorker addr name hb rc pi maxl action
       \<lparr>trace = [], sockets = 0, reads = 0, clock = c, sends = 0, send_error = f\<rparr> = Ok w wd
     \<Longrightarrow> reachable w wd"
| turn:
    "reachable w wd \<Longrightarrow>
     reachable (step_worker (iteration i w msg wd)) (step_world (iteration i w msg wd))"

text \<open>Events that create no socket, connect none, and send no READY, on sockets below \<open>N\<close>.\<close>

fun harmless :: "nat \<Rightarrow> event \<Rightarrow> bool" where
  "harmless N (SendMessage n m) = (n < N \<and> \<not> is_ready m)"
| "harmless N (NewSocket n) = False"
| "harmless N (Connect n a) = False"
| "harmless N e = True"

text \<open>
  The invariant of the executions: what holds of a trace in which the sockets below
  \<open>N\<close> have been created, and of a worker whose socket is one of them.
\<close>

definition ready_inv :: "string \<Rightarrow> nat \<Rightarrow> event list \<Rightarrow> bool" where
  "ready_inv name N tr =
     ((\<forall>n. NewSocket n \<in> set tr \<longrightarrow> n < N) \<and>
      (\<forall>n<N. sends_on n tr \<noteq> [] \<and> hd (sends_on n tr) = ['''', MD_WORKER, MD_READY, name] \<and>
          length (filter is_ready (sends_on n tr)) = 1) \<and>
      (\<forall>n\<ge>N. sends_on n tr = []) \<and>
      greeted name tr \<and>
      length (filter ready_sent tr) = N \<and>
      length (filter is_new tr) = N)"

definition ready_state :: "mdWorker \<Rightarrow> world \<Rightarrow> bool" where
  "ready_state w wd =
     ((\<exists>cur. socket w = Some cur \<and> cur < sockets wd) \<and>
      ready_inv (serviceName w) (sockets wd) (trace wd))"

subsection \<open>Examples\<close>

text \<open>
  A world whose clock advances 10 each time it is read and whose sends all succeed, and
  the echo worker that \<open>newWorker\<close> builds in it: heartbeat 25, reconnect delay 50,
  poll interval 10, liveness 3.
\<close>

definition fresh_world :: world where
  "fresh_world =
     \<lparr>trace = [], sockets = 0, reads = 0, clock = (\<lambda>n. 10 * int n), sends = 0,
      send_error = (\<lambda>n. None)\<rparr>"

definition echo :: "message \<Rightarrow> message" where
  "echo fs = fs"

definition echo_worker :: mdWorker where
  "echo_worker =
     \<lparr>shutdown = make_chan 0, brokerAddress = ''tcp://broker'', serviceName = ''echo'',
      heartbeat = 25, reconnect = 50, pollInterval = 10, maxLivenessCount = 3, liveness = 3,
      heartbeatAt = 25, socket = Some 0, workerAction = echo\<rparr>"

definition echo_world :: world where
  "echo_world = fresh_world\<lparr>trace := handshake (echo_worker\<lparr>socket := None\<rparr>) 0,
     sockets := 1, reads := 1, sends := 1\<rparr>"

text \<open>
  A worker whose deadline 100 has passed, with heartbeat interval 10, in a world whose
  clock stands at 150 and advances 10 with each reading; and the same world when every
  send fails.
\<close>

definition late_worker :: mdWorker where
  "late_worker = echo_worker\<lparr>heartbeatAt := 100, heartbeat := 10\<rparr>"

definition late_world :: world where
  "late_world = echo_world\<lparr>clock := (\<lambda>n. 140 + 10 * int n)\<rparr>"

definition deaf_world :: world where
  "deaf_world = late_world\<lparr>send_error := (\<lambda>n. Some ''EAGAIN'')\<rparr>"

text \<open>The echo worker after a turn that read a DISCONNECT.\<close>

definition bounced :: step where
  "bounced =
     iteration (PollResult (PollReadable ['''', ''MDPW01'', [CHR 0x05]])) echo_worker []
       echo_world"

section \<open>Properties\<close>

subsection \<open>The methods in closed form\<close>

lemma sendToBroker_socket:
  "socket w = Some s \<Longrightarrow>
   sendToBroker c sn m w wd =
     Ok (send_error wd (sends wd))
        (wd\<lparr>sends := Suc (sends wd),
            trace := trace wd @
              [SendMessage s (['''', MD_WORKER, c] @ (case sn of None \<Rightarrow> [] | Some f \<Rightarrow> [f])
                               @ (case m of None \<Rightarrow> [] | Some fs \<Rightarrow> fs)),
               Log Debug (SentCommand c m)]\<rparr>)"
  by (simp add: sendToBroker_def emit_def logDebug_def Let_def split: option.splits)

lemma reconnectToBroker_eq:
  "reconnectToBroker w wd =
     Ok (w\<lparr>socket := Some (sockets wd), liveness := maxLivenessCount w,
           heartbeatAt := clock wd (reads wd) + heartbeat w\<rparr>)
        (wd\<lparr>sockets := Suc (sockets wd), sends := Suc (sends wd), reads := Suc (reads wd),
            trace := trace wd @ handshake w (sockets wd)\<rparr>)"
  by (simp add: reconnectToBroker_def sendToBroker_def emit_def logDebug_def timeNow_def
      handshake_def greeting_def closing_def Let_def split: option.splits)

lemma heartbeatCheck_eq:
  "socket w = Some s \<Longrightarrow>
   heartbeatCheck w msg wd =
     (if heartbeatAt w < clock wd (reads wd)
      then Continue (w\<lparr>heartbeatAt := clock wd (Suc (reads wd)) + heartbeat w\<rparr>) msg
             (wd\<lparr>reads := Suc (Suc (reads wd)), sends := Suc (sends wd),
                 trace := trace wd @ beat s\<rparr>)
      else Continue w msg (wd\<lparr>reads := Suc (reads wd)\<rparr>))"
  by (simp add: heartbeatCheck_def sendToBroker_socket timeNow_def beat_def)

lemma newWorker_echo:
  "newWorker ''tcp://broker'' ''echo'' 25 50 10 3 echo fresh_world = Ok echo_worker echo_world"
  by (simp add: newWorker_def reconnectToBroker_eq echo_worker_def echo_world_def
      fresh_world_def handshake_def closing_def)

lemma Receive_loop_append:
  "Receive_loop (xs @ ys) w msg wd =
     (case Receive_loop xs w msg wd of
        Looping w' msg' wd' \<Rightarrow> Receive_loop ys w' msg' wd'
      | Returns m e w' wd' \<Rightarrow> Returns m e w' wd'
      | Panics p w' wd' \<Rightarrow> Panics p w' wd')"
  by (induction xs arbitrary: w msg wd) (auto split: step.splits)

lemma request_iteration:
  assumes "socket w = Some s" "5 \<le> length m" "m ! 2 = MD_REQUEST"
  shows "iteration (PollResult (PollReadable m)) w msg wd =
     Return (workerAction w (drop 5 m)) None (w\<lparr>liveness := maxLivenessCount w\<rparr>)
       (wd\<lparr>sends := Suc (sends wd),
           trace := trace wd @
             [Poll s (pollInterval w), RecvMessage s m,
              Log Debug (ReceivedRequest (drop 5 m)), Call (drop 5 m),
              SendMessage s (['''', MD_WORKER, MD_REPLY, m ! 3, ''''] @ workerAction w (drop 5 m)),
              Log Debug (SentCommand MD_REPLY (Some ('''' # workerAction w (drop 5 m))))]\<rparr>)"
  using assms
  by (simp add: dispatch_def sendToBroker_socket emit_def logDebug_def Let_def)

lemma short_request_iteration:
  assumes "socket w = Some s" "3 \<le> length m" "length m < 5" "m ! 2 = MD_REQUEST"
  shows "iteration (PollResult (PollReadable m)) w msg wd =
     Panicked (SliceBounds 5 (length m)) (w\<lparr>liveness := maxLivenessCount w\<rparr>)
       (wd\<lparr>trace := trace wd @ [Poll s (pollInterval w), RecvMessage s m]\<rparr>)"
  using assms
  by (simp add: dispatch_def emit_def Let_def)

subsection \<open>REQUEST\<close>

text \<open>
  C1, as the code has it: when the loop reads a message of at least 5 frames whose
  frame 2 is REQUEST, the handler is called with the frames from 5 on, a REPLY is sent
  whose frame 3 is frame 3 of the request, whose frame 4 is empty and whose frames
  from 5 on are the handler's output, and \<open>Receive\<close> returns that output with a nil
  error. (With 3 or 4 frames the turn panics instead, see C6.)
\<close>

theorem request_replied:
  assumes "Receive_loop pre w0 msg0 wd0 = Looping w msg wd"
    and "socket w = Some s" and "5 \<le> length m" and "m ! 2 = MD_REQUEST"
  shows "Receive_loop (pre @ PollResult (PollReadable m) # rest) w0 msg0 wd0 =
     Returns (workerAction w (drop 5 m)) None (w\<lparr>liveness := maxLivenessCount w\<rparr>)
       (wd\<lparr>sends := Suc (sends wd),
           trace := trace wd @
             [Poll s (pollInterval w), RecvMessage s m,
              Log Debug (ReceivedRequest (drop 5 m)), Call (drop 5 m),
              SendMessage s (['''', MD_WORKER, MD_REPLY, m ! 3, ''''] @ workerAction w (drop 5 m)),
              Log Debug (SentCommand MD_REPLY (Some ('''' # workerAction w (drop 5 m))))]\<rparr>)"
  using assms by (simp add: Receive_loop_append request_iteration del: iteration.simps)

theorem request_replied_witness:
  "Receive [PollResult (PollReadable ['''', ''MDPW01'', [CHR 0x02], ''CID-1'', '''', ''hello''])]
     echo_worker echo_world =
   Returns [''hello''] None echo_worker
     (echo_world\<lparr>sends := 2,
        trace := trace echo_world @
          [Poll 0 10,
           RecvMessage 0 ['''', ''MDPW01'', [CHR 0x02], ''CID-1'', '''', ''hello''],
           Log Debug (ReceivedRequest [''hello'']), Call [''hello''],
           SendMessage 0 ['''', ''MDPW01'', [CHR 0x03], ''CID-1'', '''', ''hello''],
           Log Debug (SentCommand [CHR 0x03] (Some ['''', ''hello'']))]\<rparr>)"
  using request_replied [of "[]" echo_worker "[]" echo_world echo_worker "[]" echo_world 0
      "['''', ''MDPW01'', [CHR 0x02], ''CID-1'', '''', ''hello'']" "[]"]
  by (simp add: Receive_def echo_worker_def echo_def echo_world_def MD_WORKER_def MD_REQUEST_def
      MD_REPLY_def del: iteration.simps)

theorem short_request_counterexample:
  "Receive [PollResult (PollReadable ['''', ''MDPW01'', [CHR 0x02]])] echo_worker echo_world =
   Panics (SliceBounds 5 3) echo_worker
     (echo_world\<lparr>trace := trace echo_world @
        [Poll 0 10, RecvMessage 0 ['''', ''MDPW01'', [CHR 0x02]]]\<rparr>)"
  by (simp add: Receive_def dispatch_def emit_def echo_worker_def MD_REQUEST_def)

text \<open>
  C6: a message of 3 or 4 frames passes the frame count check, and when its frame 2 is
  REQUEST the turn panics on the slice \<open>msg[5:]\<close>, whose low bound is beyond the
  length; with 5 frames or more the same turn returns. The REQUEST case is total only
  for requests of at least 5 frames.
\<close>

theorem request_needs_five_frames:
  assumes "socket w = Some s" and "3 \<le> length m" and "m ! 2 = MD_REQUEST"
  shows "(length m < 5 \<longrightarrow>
            iteration (PollResult (PollReadable m)) w msg wd =
              Panicked (SliceBounds 5 (length m)) (w\<lparr>liveness := maxLivenessCount w\<rparr>)
                (wd\<lparr>trace := trace wd @ [Poll s (pollInterval w), RecvMessage s m]\<rparr>)) \<and>
         (5 \<le> length m \<longrightarrow>
            (\<exists>wd'. iteration (PollResult (PollReadable m)) w msg wd =
               Return (workerAction w (drop 5 m)) None (w\<lparr>liveness := maxLivenessCount w\<rparr>) wd'))"
  using assms by (simp add: short_request_iteration request_iteration del: iteration.simps)

theorem request_needs_five_frames_witness:
  "iteration (PollResult (PollReadable ['''', ''MDPW01'', [CHR 0x02], ''CID-1''])) echo_worker []
     echo_world =
   Panicked (SliceBounds 5 4) echo_worker
     (echo_world\<lparr>trace := trace echo_world @
        [Poll 0 10, RecvMessage 0 ['''', ''MDPW01'', [CHR 0x02], ''CID-1'']]\<rparr>) \<and>
   (\<exists>wd'. iteration (PollResult (PollReadable ['''', ''MDPW01'', [CHR 0x02], ''CID-1'', '''']))
      echo_worker [] echo_world = Return [] None echo_worker wd')"
  using request_needs_five_frames [of echo_worker 0 "['''', ''MDPW01'', [CHR 0x02], ''CID-1'']"
      "[]" echo_world]
    request_needs_five_frames [of echo_worker 0
      "['''', ''MDPW01'', [CHR 0x02], ''CID-1'', '''']" "[]" echo_world]
  by (simp add: echo_worker_def echo_def MD_REQUEST_def del: iteration.simps)

subsection \<open>The turns of the loop in closed form\<close>

lemma commands_differ:
  "MD_DISCONNECT \<noteq> MD_REQUEST" "MD_HEARTBEAT \<noteq> MD_REQUEST" "MD_HEARTBEAT \<noteq> MD_DISCONNECT"
  "MD_REPLY \<noteq> MD_READY" "MD_HEARTBEAT \<noteq> MD_READY"
  by (simp_all add: MD_DISCONNECT_def MD_REQUEST_def MD_HEARTBEAT_def MD_REPLY_def MD_READY_def)

lemma reconnect_then_check:
  "(case reconnectToBroker w wd of
      Panic p w' wd' \<Rightarrow> Panicked p w' wd'
    | Ok w2 wd2 \<Rightarrow> heartbeatCheck w2 msg wd2) =
   (if clock wd (reads wd) + heartbeat w < clock wd (Suc (reads wd))
    then Continue (w\<lparr>socket := Some (sockets wd), liveness := maxLivenessCount w,
                     heartbeatAt := clock wd (Suc (Suc (reads wd))) + heartbeat w\<rparr>) msg
           (wd\<lparr>sockets := Suc (sockets wd), sends := Suc (Suc (sends wd)),
               reads := Suc (Suc (Suc (reads wd))),
               trace := trace wd @ handshake w (sockets wd) @ beat (sockets wd)\<rparr>)
    else Continue (w\<lparr>socket := Some (sockets wd), liveness := maxLivenessCount w,
                     heartbeatAt := clock wd (reads wd) + heartbeat w\<rparr>) msg
           (wd\<lparr>sockets := Suc (sockets wd), sends := Suc (sends wd),
               reads := Suc (Suc (reads wd)),
               trace := trace wd @ handshake w (sockets wd)\<rparr>))"
  by (simp add: reconnectToBroker_eq heartbeatCheck_eq)

lemma disconnect_iteration:
  assumes "socket w = Some s" "3 \<le> length m" "m ! 2 = MD_DISCONNECT"
  shows "iteration (PollResult (PollReadable m)) w msg wd =
    (case reconnectToBroker (w\<lparr>liveness := maxLivenessCount w\<rparr>)
            (wd\<lparr>trace := trace wd @ [Poll s (pollInterval w), RecvMessage s m,
                                     Log Debug ReceivedDisconnect]\<rparr>) of
       Panic p w' wd' \<Rightarrow> Panicked p w' wd'
     | Ok w2 wd2 \<Rightarrow> heartbeatCheck w2 m wd2)"
  using assms by (simp add: commands_differ dispatch_def emit_def logDebug_def Let_def)

lemma idle_iteration:
  assumes "socket w = Some s" "3 \<le> length m" "m ! 2 \<noteq> MD_REQUEST" "m ! 2 \<noteq> MD_DISCONNECT"
  shows "iteration (PollResult (PollReadable m)) w msg wd =
     heartbeatCheck (w\<lparr>liveness := maxLivenessCount w\<rparr>) m
       (wd\<lparr>trace := trace wd @ [Poll s (pollInterval w), RecvMessage s m,
          Log Debug (if m ! 2 = MD_HEARTBEAT then ReceivedHeartbeat else UnknownCommand (m ! 2))]\<rparr>)"
  using assms by (simp add: dispatch_def emit_def logDebug_def Let_def)

lemma malformed_iteration:
  assumes "socket w = Some s" "length m < 3"
  shows "iteration (PollResult (PollReadable m)) w msg wd =
     Continue w m (wd\<lparr>trace := trace wd @ [Poll s (pollInterval w), RecvMessage s m,
          Log Error (NotEnoughFrames (length m))]\<rparr>)"
  using assms by (simp add: emit_def logError_def Let_def)

lemma timeout_iteration:
  assumes "socket w = Some s"
  shows "iteration (PollResult PollTimeout) w msg wd =
     (if sint (liveness w - 1) \<le> 0 then
        (case reconnectToBroker (w\<lparr>liveness := liveness w - 1\<rparr>)
            (wd\<lparr>trace := trace wd @ [Poll s (pollInterval w),
                  Log Warn (NothingReceived (maxLivenessCount w) (reconnect w)),
                  Sleep (reconnect w)]\<rparr>) of
           Panic p w' wd' \<Rightarrow> Panicked p w' wd'
         | Ok w2 wd2 \<Rightarrow> heartbeatCheck w2 msg wd2)
      else heartbeatCheck (w\<lparr>liveness := liveness w - 1\<rparr>) msg
             (wd\<lparr>trace := trace wd @ [Poll s (pollInterval w)]\<rparr>))"
  using assms by (simp add: emit_def logWarn_def Let_def)

lemma failed_iteration:
  assumes "socket w = Some s"
  shows "iteration (PollResult (PollFailed e)) w msg wd =
     Continue w msg (wd\<lparr>trace := trace wd @ [Poll s (pollInterval w),
          Log Error (PollingFailed e)]\<rparr>)"
  using assms by (simp add: emit_def logError_def Let_def)

lemma shutdown_iteration:
  "iteration ShutdownSignal w msg wd =
     Return msg (Some ''Graceful shutdown'') w
       (wd\<lparr>trace := trace wd @ closing w @ [Term, Log Debug ClosedAll]\<rparr>)"
  by (simp add: cleanup_def emit_def logDebug_def closing_def Let_def split: option.splits)

subsection \<open>Liveness and inbound messages\<close>

text \<open>
  C2: after the turn that reads a message of at least 3 frames the liveness counter
  equals \<open>maxLivenessCount\<close>, whatever the command frame is (also when the turn ends
  in a return or a panic); a message of fewer than 3 frames leaves the worker, and so
  the liveness counter, as it was, and the turn does nothing but log the error: no
  handler call, no send, no reconnect.
\<close>

theorem liveness_after_message:
  assumes "socket w = Some s"
  shows "(3 \<le> length m \<longrightarrow>
            liveness (step_worker (iteration (PollResult (PollReadable m)) w msg wd)) =
              maxLivenessCount w) \<and>
         (length m < 3 \<longrightarrow>
            iteration (PollResult (PollReadable m)) w msg wd =
              Continue w m
                (wd\<lparr>trace := trace wd @
                   [Poll s (pollInterval w), RecvMessage s m,
                    Log Error (NotEnoughFrames (length m))]\<rparr>))"
proof (intro conjI impI)
  assume len: "3 \<le> length m"
  consider (req) "m ! 2 = MD_REQUEST" "length m < 5" | (req5) "m ! 2 = MD_REQUEST" "5 \<le> length m"
    | (dis) "m ! 2 = MD_DISCONNECT" | (other) "m ! 2 \<noteq> MD_REQUEST" "m ! 2 \<noteq> MD_DISCONNECT"
    by fastforce
  then show "liveness (step_worker (iteration (PollResult (PollReadable m)) w msg wd)) =
      maxLivenessCount w"
  proof cases
    case req
    then show ?thesis using assms len by (simp add: short_request_iteration del: iteration.simps)
  next
    case req5
    then show ?thesis using assms by (simp add: request_iteration del: iteration.simps)
  next
    case dis
    then show ?thesis using assms len
      by (simp add: disconnect_iteration reconnect_then_check del: iteration.simps)
  next
    case other
    then show ?thesis using assms len
      by (simp add: idle_iteration heartbeatCheck_eq del: iteration.simps)
  qed
next
  assume "length m < 3"
  then show "iteration (PollResult (PollReadable m)) w msg wd =
      Continue w m (wd\<lparr>trace := trace wd @ [Poll s (pollInterval w), RecvMessage s m,
          Log Error (NotEnoughFrames (length m))]\<rparr>)"
    using assms by (simp add: malformed_iteration del: iteration.simps)
qed

theorem liveness_after_message_witness:
  "liveness (step_worker (iteration (PollResult (PollReadable ['''', ''MDPW01'', [CHR 0x04]]))
      (echo_worker\<lparr>liveness := 1\<rparr>) [] echo_world)) = 3 \<and>
   iteration (PollResult (PollReadable [''only-two'', ''frames'']))
      (echo_worker\<lparr>liveness := 1\<rparr>) [] echo_world =
     Continue (echo_worker\<lparr>liveness := 1\<rparr>) [''only-two'', ''frames'']
       (echo_world\<lparr>trace := trace echo_world @
          [Poll 0 10, RecvMessage 0 [''only-two'', ''frames''], Log Error (NotEnoughFrames 2)]\<rparr>)"
  using liveness_after_message [of "echo_worker\<lparr>liveness := 1\<rparr>" 0
      "['''', ''MDPW01'', [CHR 0x04]]" "[]" echo_world]
    liveness_after_message [of "echo_worker\<lparr>liveness := 1\<rparr>" 0
      "[''only-two'', ''frames'']" "[]" echo_world]
  by (simp add: echo_worker_def del: iteration.simps)

subsection \<open>Shutdown\<close>

text \<open>
  C4: in the turn whose \<open>select\<close> finds the shutdown signal, \<open>Receive\<close> closes the
  socket once, terminates the context and returns the error \<open>Graceful shutdown\<close>;
  the turn polls nothing, calls no handler and sends nothing, and no later turn runs.
\<close>

theorem shutdown_returns:
  assumes "Receive_loop pre w0 msg0 wd0 = Looping w msg wd" and "socket w = Some s"
  shows "Receive_loop (pre @ ShutdownSignal # rest) w0 msg0 wd0 =
     Returns msg (Some ''Graceful shutdown'') w
       (wd\<lparr>trace := trace wd @ [Close s, Term, Log Debug ClosedAll]\<rparr>)"
  using assms
  by (simp add: Receive_loop_append shutdown_iteration closing_def del: iteration.simps)

theorem shutdown_returns_witness:
  "Receive [PollResult (PollFailed ''EINTR''), ShutdownSignal, PollResult PollTimeout]
     echo_worker echo_world =
   Returns [] (Some ''Graceful shutdown'') echo_worker
     (echo_world\<lparr>trace := trace echo_world @
        [Poll 0 10, Log Error (PollingFailed ''EINTR''), Close 0, Term, Log Debug ClosedAll]\<rparr>)"
  using shutdown_returns [of "[PollResult (PollFailed ''EINTR'')]" echo_worker "[]" echo_world
      echo_worker "[]"
      "echo_world\<lparr>trace := trace echo_world @ [Poll 0 10, Log Error (PollingFailed ''EINTR'')]\<rparr>"
      0 "[PollResult PollTimeout]"]
  by (simp add: Receive_def failed_iteration [of _ 0] echo_worker_def del: iteration.simps)

subsection \<open>DISCONNECT\<close>

text \<open>
  C8: the turn that reads a message of at least 3 frames whose frame 2 is DISCONNECT
  closes the current socket once, creates one new socket and sends one READY on it,
  and goes round the loop again: \<open>Receive\<close> does not return in that turn.
\<close>

theorem disconnect_reconnects:
  assumes "socket w = Some s" and "3 \<le> length m" and "m ! 2 = MD_DISCONNECT"
  shows "\<exists>w' wd'.
     iteration (PollResult (PollReadable m)) w msg wd = Continue w' m wd' \<and>
     Receive_loop (PollResult (PollReadable m) # rest) w msg wd = Receive_loop rest w' m wd' \<and>
     socket w' = Some (sockets wd) \<and>
     filter reconnecting (since wd wd') =
       [Close s, NewSocket (sockets wd),
        SendMessage (sockets wd) ['''', MD_WORKER, MD_READY, serviceName w]]"
  using assms
  by (simp add: commands_differ disconnect_iteration reconnect_then_check since_def
      handshake_def closing_def greeting_def beat_def is_ready_def del: iteration.simps)

theorem disconnect_reconnects_witness:
  "\<exists>w' wd'.
     iteration (PollResult (PollReadable ['''', ''MDPW01'', [CHR 0x05]])) echo_worker []
       echo_world = Continue w' ['''', ''MDPW01'', [CHR 0x05]] wd' \<and>
     Receive_loop [PollResult (PollReadable ['''', ''MDPW01'', [CHR 0x05]])] echo_worker []
       echo_world = Looping w' ['''', ''MDPW01'', [CHR 0x05]] wd' \<and>
     socket w' = Some 1 \<and>
     filter reconnecting (since echo_world wd') =
       [Close 0, NewSocket 1, SendMessage 1 ['''', ''MDPW01'', [CHR 0x01], ''echo'']]"
  using disconnect_reconnects [where w = echo_worker and s = 0 and msg = "[]"
      and m = "['''', ''MDPW01'', [CHR 0x05]]" and wd = echo_world and rest = "[]"]
  by (simp add: echo_worker_def echo_world_def MD_DISCONNECT_def MD_WORKER_def MD_READY_def
      del: iteration.simps)

subsection \<open>Silent polls\<close>

lemma sint_dec:
  "0 < sint (l :: 64 word) \<Longrightarrow> sint (l - 1) = sint l - 1"
proof -
  assume a: "0 < sint l"
  have b: "sint l < 2 ^ 63" using sint_lt [of l] by simp
  have "sint (l - 1) = signed_take_bit 63 (sint l - sint (1 :: 64 word))"
    using sint_word_ariths(2) [of l 1] by simp
  also have "\<dots> = signed_take_bit 63 (sint l - 1)" by simp
  also have "\<dots> = sint l - 1"
    using a b by (simp add: signed_take_bit_int_eq_self)
  finally show ?thesis .
qed

lemma silent_step:
  assumes "socket w = Some s" and "1 < sint (liveness w)"
  shows "\<exists>h ev wd'. iteration (PollResult PollTimeout) w msg wd =
           Continue (w\<lparr>liveness := liveness w - 1, heartbeatAt := h\<rparr>) msg wd' \<and>
         trace wd' = trace wd @ ev \<and> filter reconnecting ev = [] \<and> sockets wd' = sockets wd"
proof -
  have "sint (liveness w - 1) = sint (liveness w) - 1"
    using assms(2) by (simp add: sint_dec)
  then have pos: "\<not> sint (liveness w - 1) \<le> 0" using assms(2) by simp
  show ?thesis
  proof (cases "heartbeatAt w < clock wd (reads wd)")
    case True
    then show ?thesis using assms(1) pos
      by (auto simp add: commands_differ timeout_iteration heartbeatCheck_eq beat_def
          is_ready_def simp del: iteration.simps)
  next
    case False
    then have "iteration (PollResult PollTimeout) w msg wd =
        Continue (w\<lparr>liveness := liveness w - 1, heartbeatAt := heartbeatAt w\<rparr>) msg
          (wd\<lparr>reads := Suc (reads wd), trace := trace wd @ [Poll s (pollInterval w)]\<rparr>)"
      using assms(1) pos by (simp add: timeout_iteration heartbeatCheck_eq del: iteration.simps)
    then show ?thesis by (intro exI [of _ "heartbeatAt w"]) simp
  qed
qed

lemma silent_polls:
  assumes "socket w = Some s" and "int k < sint (liveness w)"
  shows "\<exists>l h ev wd'. Receive_loop (silent k) w msg wd =
           Looping (w\<lparr>liveness := l, heartbeatAt := h\<rparr>) msg wd' \<and>
         sint l = sint (liveness w) - int k \<and>
         trace wd' = trace wd @ ev \<and> filter reconnecting ev = [] \<and> sockets wd' = sockets wd"
  using assms
proof (induction k arbitrary: w wd)
  case 0
  have "Receive_loop (silent 0) w msg wd =
      Looping (w\<lparr>liveness := liveness w, heartbeatAt := heartbeatAt w\<rparr>) msg wd"
    by (simp add: silent_def)
  then show ?case by (intro exI [of _ "liveness w"] exI [of _ "heartbeatAt w"] exI [of _ "[]"]
        exI [of _ wd]) simp
next
  case (Suc k)
  from Suc.prems have big: "1 < sint (liveness w)" by simp
  from silent_step [OF Suc.prems(1) big, of msg wd] obtain h ev wd1 where
    st: "iteration (PollResult PollTimeout) w msg wd =
           Continue (w\<lparr>liveness := liveness w - 1, heartbeatAt := h\<rparr>) msg wd1"
    and tr: "trace wd1 = trace wd @ ev" and quiet: "filter reconnecting ev = []"
    and sk: "sockets wd1 = sockets wd"
    by blast
  let ?w1 = "w\<lparr>liveness := liveness w - 1, heartbeatAt := h\<rparr>"
  have l1: "sint (liveness ?w1) = sint (liveness w) - 1" using big by (simp add: sint_dec)
  have "socket ?w1 = Some s" using Suc.prems(1) by simp
  moreover have "int k < sint (liveness ?w1)" using Suc.prems(2) l1 by simp
  ultimately obtain l h' ev' wd' where
    run: "Receive_loop (silent k) ?w1 msg wd1 =
            Looping (?w1\<lparr>liveness := l, heartbeatAt := h'\<rparr>) msg wd'"
    and lv: "sint l = sint (liveness ?w1) - int k"
    and tr': "trace wd' = trace wd1 @ ev'" and quiet': "filter reconnecting ev' = []"
    and sk': "sockets wd' = sockets wd1"
    using Suc.IH [of ?w1 wd1] by blast
  have "Receive_loop (silent (Suc k)) w msg wd =
      Looping (w\<lparr>liveness := l, heartbeatAt := h'\<rparr>) msg wd'"
    using st run by (simp add: silent_def del: iteration.simps)
  moreover have "sint l = sint (liveness w) - int (Suc k)" using lv l1 by simp
  moreover have "trace wd' = trace wd @ (ev @ ev')" using tr tr' by simp
  moreover have "filter reconnecting (ev @ ev') = []" using quiet quiet' by simp
  moreover have "sockets wd' = sockets wd" using sk sk' by simp
  ultimately show ?case by blast
qed

lemma last_silent_step:
  assumes "socket w = Some s" and "sint (liveness w) = 1"
  shows "\<exists>h wd'. iteration (PollResult PollTimeout) w msg wd =
           Continue (w\<lparr>socket := Some (sockets wd), liveness := maxLivenessCount w,
                       heartbeatAt := h\<rparr>) msg wd' \<and>
         (\<exists>ev. trace wd' = trace wd @ ev \<and>
            filter reconnecting ev =
              [Sleep (reconnect w), Close s, NewSocket (sockets wd),
               SendMessage (sockets wd) ['''', MD_WORKER, MD_READY, serviceName w]])"
proof -
  have "sint (liveness w - 1) = 0" using assms(2) by (simp add: sint_dec)
  then show ?thesis using assms(1)
    by (auto simp add: commands_differ timeout_iteration reconnect_then_check handshake_def
          closing_def greeting_def beat_def is_ready_def simp del: iteration.simps)
qed

text \<open>
  C3: from a worker whose liveness equals \<open>maxLivenessCount\<close>, a positive number
  \<open>n\<close>, fewer than \<open>n\<close> silent polls in a row only count the liveness down (no
  sleep, no close, no new socket, no READY), and exactly \<open>n\<close> of them make the worker
  sleep once for the reconnect delay and then reconnect once: the old socket closed, one
  new socket, one READY on it, and the liveness full again.
\<close>

theorem silent_polls_reconnect:
  assumes "socket w = Some s" and "liveness w = maxLivenessCount w"
    and "0 < sint (maxLivenessCount w)"
  shows "(\<forall>k. int k < sint (maxLivenessCount w) \<longrightarrow>
            (\<exists>w' wd'. Receive_loop (silent k) w msg wd = Looping w' msg wd' \<and>
               sint (liveness w') = sint (maxLivenessCount w) - int k \<and>
               socket w' = Some s \<and> filter reconnecting (since wd wd') = [])) \<and>
         (\<exists>w' wd'. Receive_loop (silent (nat (sint (maxLivenessCount w)))) w msg wd =
               Looping w' msg wd' \<and>
            liveness w' = maxLivenessCount w \<and> socket w' = Some (sockets wd) \<and>
            filter reconnecting (since wd wd') =
              [Sleep (reconnect w), Close s, NewSocket (sockets wd),
               SendMessage (sockets wd) ['''', MD_WORKER, MD_READY, serviceName w]])"
proof (intro conjI allI impI)
  fix k
  assume "int k < sint (maxLivenessCount w)"
  then have "int k < sint (liveness w)" using assms(2) by simp
  from silent_polls [OF assms(1) this, of msg wd] obtain l h ev wd' where
    run: "Receive_loop (silent k) w msg wd = Looping (w\<lparr>liveness := l, heartbeatAt := h\<rparr>) msg wd'"
    and lv: "sint l = sint (liveness w) - int k"
    and tr: "trace wd' = trace wd @ ev" and quiet: "filter reconnecting ev = []"
    by blast
  have "since wd wd' = ev" using tr by (simp add: since_def)
  then show "\<exists>w' wd'. Receive_loop (silent k) w msg wd = Looping w' msg wd' \<and>
      sint (liveness w') = sint (maxLivenessCount w) - int k \<and>
      socket w' = Some s \<and> filter reconnecting (since wd wd') = []"
    using run lv quiet assms(1,2) by (intro exI [of _ "w\<lparr>liveness := l, heartbeatAt := h\<rparr>"]
        exI [of _ wd']) simp
next
  let ?n = "nat (sint (maxLivenessCount w))"
  obtain k where n: "?n = Suc k" using assms(3) by (cases ?n) auto
  then have "int k < sint (liveness w)" and one: "sint (liveness w) - int k = 1"
    using assms(2,3) by auto
  from silent_polls [OF assms(1) this(1), of msg wd] obtain l h ev wd1 where
    run: "Receive_loop (silent k) w msg wd = Looping (w\<lparr>liveness := l, heartbeatAt := h\<rparr>) msg wd1"
    and lv: "sint l = sint (liveness w) - int k"
    and tr: "trace wd1 = trace wd @ ev" and quiet: "filter reconnecting ev = []"
    and sk: "sockets wd1 = sockets wd"
    by blast
  let ?w1 = "w\<lparr>liveness := l, heartbeatAt := h\<rparr>"
  have "socket ?w1 = Some s" and "sint (liveness ?w1) = 1" using assms(1) lv one by simp_all
  from last_silent_step [OF this, of msg wd1] obtain h' wd' ev' where
    st: "iteration (PollResult PollTimeout) ?w1 msg wd1 =
           Continue (?w1\<lparr>socket := Some (sockets wd1), liveness := maxLivenessCount ?w1,
                        heartbeatAt := h'\<rparr>) msg wd'"
    and tr': "trace wd' = trace wd1 @ ev'"
    and ev': "filter reconnecting ev' =
        [Sleep (reconnect ?w1), Close s, NewSocket (sockets wd1),
         SendMessage (sockets wd1) ['''', MD_WORKER, MD_READY, serviceName ?w1]]"
    by blast
  have "silent ?n = silent k @ [PollResult PollTimeout]"
    using n by (simp add: silent_def replicate_append_same)
  then have "Receive_loop (silent ?n) w msg wd =
      Looping (?w1\<lparr>socket := Some (sockets wd1), liveness := maxLivenessCount ?w1,
                   heartbeatAt := h'\<rparr>) msg wd'"
    using run st by (simp add: Receive_loop_append del: iteration.simps)
  moreover have "since wd wd' = ev @ ev'" using tr tr' by (simp add: since_def)
  ultimately show "\<exists>w' wd'. Receive_loop (silent ?n) w msg wd = Looping w' msg wd' \<and>
      liveness w' = maxLivenessCount w \<and> socket w' = Some (sockets wd) \<and>
      filter reconnecting (since wd wd') =
        [Sleep (reconnect w), Close s, NewSocket (sockets wd),
         SendMessage (sockets wd) ['''', MD_WORKER, MD_READY, serviceName w]]"
    using quiet ev' sk by simp
qed

theorem silent_polls_reconnect_witness:
  "(\<exists>w' wd'. Receive_loop (silent 2) echo_worker [] echo_world = Looping w' [] wd' \<and>
      sint (liveness w') = 1 \<and> socket w' = Some 0 \<and>
      filter reconnecting (since echo_world wd') = []) \<and>
   (\<exists>w' wd'. Receive_loop (silent 3) echo_worker [] echo_world = Looping w' [] wd' \<and>
      liveness w' = 3 \<and> socket w' = Some 1 \<and>
      filter reconnecting (since echo_world wd') =
        [Sleep 50, Close 0, NewSocket 1, SendMessage 1 ['''', ''MDPW01'', [CHR 0x01], ''echo'']])"
proof -
  have a: "socket echo_worker = Some 0" "liveness echo_worker = maxLivenessCount echo_worker"
    "0 < sint (maxLivenessCount echo_worker)" "sint (maxLivenessCount echo_worker) = 3"
    by (simp_all add: echo_worker_def)
  have b: "int 2 < sint (maxLivenessCount echo_worker)" using a(4) by simp
  have c: "nat (sint (maxLivenessCount echo_worker)) = 3" using a(4) by simp
  show ?thesis
    using silent_polls_reconnect [OF a(1,2,3), of "[]" echo_world, THEN conjunct1, rule_format, OF b]
      silent_polls_reconnect [OF a(1,2,3), of "[]" echo_world, THEN conjunct2]
    unfolding c
    by (simp add: a(4) echo_worker_def echo_world_def MD_WORKER_def MD_READY_def)
qed

subsection \<open>The heartbeat deadline\<close>

lemma announcing_simps:
  "filter announcing (beat s) \<noteq> []"
  "filter announcing (handshake w n) \<noteq> []"
  by (simp_all add: beat_def handshake_def greeting_def is_ready_def is_beat_def)

lemma deadline_kept:
  assumes "socket w = Some s"
    and "filter announcing (since wd (step_world (iteration i w msg wd))) = []"
  shows "heartbeatAt (step_worker (iteration i w msg wd)) = heartbeatAt w"
proof (cases i)
  case ShutdownSignal
  then show ?thesis by (simp add: shutdown_iteration del: iteration.simps)
next
  case (PollResult r)
  show ?thesis
  proof (cases r)
    case (PollFailed e)
    then show ?thesis using PollResult assms(1)
      by (simp add: failed_iteration del: iteration.simps)
  next
    case PollTimeout
    then show ?thesis using PollResult assms
      by (simp add: announcing_simps timeout_iteration reconnect_then_check heartbeatCheck_eq
          since_def
          del: iteration.simps split: if_splits)
  next
    case (PollReadable m)
    consider (short) "length m < 3"
      | (req) "3 \<le> length m" "m ! 2 = MD_REQUEST" "length m < 5"
      | (req5) "m ! 2 = MD_REQUEST" "5 \<le> length m"
      | (dis) "3 \<le> length m" "m ! 2 = MD_DISCONNECT"
      | (other) "3 \<le> length m" "m ! 2 \<noteq> MD_REQUEST" "m ! 2 \<noteq> MD_DISCONNECT"
      by fastforce
    then show ?thesis
    proof cases
      case short
      then show ?thesis using PollResult PollReadable assms(1)
        by (simp add: malformed_iteration del: iteration.simps)
    next
      case req
      then show ?thesis using PollResult PollReadable assms(1)
        by (simp add: short_request_iteration del: iteration.simps)
    next
      case req5
      then show ?thesis using PollResult PollReadable assms(1)
        by (simp add: request_iteration del: iteration.simps)
    next
      case dis
      then show ?thesis using PollResult PollReadable assms
        by (simp add: announcing_simps disconnect_iteration reconnect_then_check since_def
            del: iteration.simps split: if_splits)
    next
      case other
      then show ?thesis using PollResult PollReadable assms
        by (simp add: announcing_simps idle_iteration heartbeatCheck_eq since_def
            del: iteration.simps split: if_splits)
    qed
  qed
qed

lemma announcing_beat:
  "filter announcing (beat s) = [SendMessage s ['''', MD_WORKER, MD_HEARTBEAT]]"
  by (simp add: beat_def is_beat_def)

lemma announcing_handshake:
  "filter announcing (handshake w n) = [SendMessage n ['''', MD_WORKER, MD_READY, serviceName w]]"
  by (simp add: handshake_def greeting_def closing_def is_ready_def split: option.splits)

lemma reply_not_announcing:
  "\<not> is_ready (['''', MD_WORKER, MD_REPLY, c, ''''] @ out)"
  "\<not> is_beat (['''', MD_WORKER, MD_REPLY, c, ''''] @ out)"
  by (simp_all add: is_ready_def is_beat_def MD_REPLY_def MD_READY_def MD_HEARTBEAT_def)

lemma unchecked_turn:
  assumes "socket w = Some s" and "\<not> checks_deadline i"
  shows "filter announcing (since wd (step_world (iteration i w msg wd))) = [] \<and>
         heartbeatAt (step_worker (iteration i w msg wd)) = heartbeatAt w"
proof (cases i)
  case ShutdownSignal
  then show ?thesis
    by (simp add: shutdown_iteration since_def closing_def del: iteration.simps
        split: option.splits)
next
  case (PollResult r)
  show ?thesis
  proof (cases r)
    case (PollFailed e)
    then show ?thesis using PollResult assms(1)
      by (simp add: failed_iteration since_def del: iteration.simps)
  next
    case PollTimeout
    then show ?thesis using PollResult assms(2) by simp
  next
    case (PollReadable m)
    consider (short) "length m < 3"
      | (req) "3 \<le> length m" "m ! 2 = MD_REQUEST" "length m < 5"
      | (req5) "m ! 2 = MD_REQUEST" "5 \<le> length m"
      using assms(2) PollResult PollReadable by fastforce
    then show ?thesis
    proof cases
      case short
      then show ?thesis using PollResult PollReadable assms(1)
        by (simp add: malformed_iteration since_def del: iteration.simps)
    next
      case req
      then show ?thesis using PollResult PollReadable assms(1)
        by (simp add: short_request_iteration since_def del: iteration.simps)
    next
      case req5
      then show ?thesis using PollResult PollReadable assms(1)
          reply_not_announcing [of "m ! 3" "workerAction w (drop 5 m)"]
        by (simp add: request_iteration since_def del: iteration.simps)
    qed
  qed
qed

lemma checked_turn:
  assumes "socket w = Some s" and "checks_deadline i" and "\<not> reconnects w i"
  shows "if heartbeatAt w < clock wd (reads wd)
         then filter announcing (since wd (step_world (iteration i w msg wd))) =
                [SendMessage s ['''', MD_WORKER, MD_HEARTBEAT]] \<and>
              heartbeatAt (step_worker (iteration i w msg wd)) =
                clock wd (Suc (reads wd)) + heartbeat w
         else filter announcing (since wd (step_world (iteration i w msg wd))) = [] \<and>
              heartbeatAt (step_worker (iteration i w msg wd)) = heartbeatAt w"
proof (cases i)
  case ShutdownSignal
  then show ?thesis using assms(2) by simp
next
  case (PollResult r)
  show ?thesis
  proof (cases r)
    case (PollFailed e)
    then show ?thesis using PollResult assms(2) by simp
  next
    case PollTimeout
    then show ?thesis using PollResult assms(1,3)
      by (simp add: timeout_iteration heartbeatCheck_eq since_def announcing_beat
          del: iteration.simps)
  next
    case (PollReadable m)
    then have "3 \<le> length m" "m ! 2 \<noteq> MD_REQUEST" "m ! 2 \<noteq> MD_DISCONNECT"
      using PollResult assms(2,3) by simp_all
    then show ?thesis using PollResult PollReadable assms(1)
      by (simp add: idle_iteration heartbeatCheck_eq since_def announcing_beat
          del: iteration.simps)
  qed
qed

lemma reconnecting_turn:
  assumes "socket w = Some s" and "checks_deadline i" and "reconnects w i"
  shows "if clock wd (reads wd) + heartbeat w < clock wd (Suc (reads wd))
         then filter announcing (since wd (step_world (iteration i w msg wd))) =
                [SendMessage (sockets wd) ['''', MD_WORKER, MD_READY, serviceName w],
                 SendMessage (sockets wd) ['''', MD_WORKER, MD_HEARTBEAT]] \<and>
              heartbeatAt (step_worker (iteration i w msg wd)) =
                clock wd (Suc (Suc (reads wd))) + heartbeat w
         else filter announcing (since wd (step_world (iteration i w msg wd))) =
                [SendMessage (sockets wd) ['''', MD_WORKER, MD_READY, serviceName w]] \<and>
              heartbeatAt (step_worker (iteration i w msg wd)) =
                clock wd (reads wd) + heartbeat w"
proof (cases i)
  case ShutdownSignal
  then show ?thesis using assms(2) by simp
next
  case (PollResult r)
  show ?thesis
  proof (cases r)
    case (PollFailed e)
    then show ?thesis using PollResult assms(2) by simp
  next
    case PollTimeout
    then show ?thesis using PollResult assms(1,3)
      by (simp add: timeout_iteration reconnect_then_check since_def announcing_beat
          announcing_handshake del: iteration.simps)
  next
    case (PollReadable m)
    then have "3 \<le> length m" "m ! 2 = MD_DISCONNECT"
      using PollResult assms(3) by simp_all
    then show ?thesis using PollResult PollReadable assms(1)
      by (simp add: disconnect_iteration reconnect_then_check since_def announcing_beat
          announcing_handshake del: iteration.simps)
  qed
qed

text \<open>
  C7, as the code has it: \<open>heartbeatAt\<close> is assigned in two places only, the
  handshake and the heartbeat send. A turn that sends neither READY nor HEARTBEAT
  leaves the deadline as it was. A turn that does not reach the end of the loop body (a
  failed poll, a message of fewer than 3 frames, a REQUEST, the shutdown) sends no
  HEARTBEAT and leaves the deadline as it was, however long it is overdue; the REPLY of
  a request is sent and leaves it as it was. Every other turn checks the deadline at
  its end: when the deadline is strictly before the clock's reading, one HEARTBEAT is
  sent and the deadline becomes the next reading of the clock plus \<open>heartbeat\<close>;
  when it is not, nothing is sent and the deadline stays. A turn that reconnects sets
  the deadline in the handshake first, to the clock's reading plus \<open>heartbeat\<close>, and
  checks that new deadline; the constructor's handshake sets it the same way.
\<close>

theorem deadline_recomputed:
  assumes "socket w = Some s"
  shows "(\<forall>i. filter announcing (since wd (step_world (iteration i w msg wd))) = [] \<longrightarrow>
              heartbeatAt (step_worker (iteration i w msg wd)) = heartbeatAt w) \<and>
         (\<forall>i. \<not> checks_deadline i \<longrightarrow>
              filter announcing (since wd (step_world (iteration i w msg wd))) = [] \<and>
              heartbeatAt (step_worker (iteration i w msg wd)) = heartbeatAt w) \<and>
         (5 \<le> length m \<and> m ! 2 = MD_REQUEST \<longrightarrow>
              SendMessage s (['''', MD_WORKER, MD_REPLY, m ! 3, ''''] @ workerAction w (drop 5 m))
                \<in> set (since wd (step_world (iteration (PollResult (PollReadable m)) w msg wd))) \<and>
              heartbeatAt (step_worker (iteration (PollResult (PollReadable m)) w msg wd)) =
                heartbeatAt w) \<and>
         (\<forall>i. checks_deadline i \<and> \<not> reconnects w i \<longrightarrow>
              (if heartbeatAt w < clock wd (reads wd)
               then filter announcing (since wd (step_world (iteration i w msg wd))) =
                      [SendMessage s ['''', MD_WORKER, MD_HEARTBEAT]] \<and>
                    heartbeatAt (step_worker (iteration i w msg wd)) =
                      clock wd (Suc (reads wd)) + heartbeat w
               else filter announcing (since wd (step_world (iteration i w msg wd))) = [] \<and>
                    heartbeatAt (step_worker (iteration i w msg wd)) = heartbeatAt w)) \<and>
         (\<forall>i. checks_deadline i \<and> reconnects w i \<longrightarrow>
              (if clock wd (reads wd) + heartbeat w < clock wd (Suc (reads wd))
               then filter announcing (since wd (step_world (iteration i w msg wd))) =
                      [SendMessage (sockets wd) ['''', MD_WORKER, MD_READY, serviceName w],
                       SendMessage (sockets wd) ['''', MD_WORKER, MD_HEARTBEAT]] \<and>
                    heartbeatAt (step_worker (iteration i w msg wd)) =
                      clock wd (Suc (Suc (reads wd))) + heartbeat w
               else filter announcing (since wd (step_world (iteration i w msg wd))) =
                      [SendMessage (sockets wd) ['''', MD_WORKER, MD_READY, serviceName w]] \<and>
                    heartbeatAt (step_worker (iteration i w msg wd)) =
                      clock wd (reads wd) + heartbeat w)) \<and>
         (\<forall>addr name hb rc pi maxl action w1 wd1.
              newWorker addr name hb rc pi maxl action wd = Ok w1 wd1 \<longrightarrow>
              heartbeatAt w1 = clock wd (reads wd) + hb)"
proof (intro conjI allI impI)
  fix i
  assume "filter announcing (since wd (step_world (iteration i w msg wd))) = []"
  with assms show "heartbeatAt (step_worker (iteration i w msg wd)) = heartbeatAt w"
    by (rule deadline_kept)
next
  fix i
  assume "\<not> checks_deadline i"
  with assms show "filter announcing (since wd (step_world (iteration i w msg wd))) = []"
    and "heartbeatAt (step_worker (iteration i w msg wd)) = heartbeatAt w"
    using unchecked_turn [of w s i wd msg] by simp_all
next
  assume r: "5 \<le> length m \<and> m ! 2 = MD_REQUEST"
  then show "SendMessage s (['''', MD_WORKER, MD_REPLY, m ! 3, ''''] @ workerAction w (drop 5 m))
      \<in> set (since wd (step_world (iteration (PollResult (PollReadable m)) w msg wd)))"
    using assms by (simp add: request_iteration since_def del: iteration.simps)
  show "heartbeatAt (step_worker (iteration (PollResult (PollReadable m)) w msg wd)) =
      heartbeatAt w"
    using r assms by (simp add: request_iteration del: iteration.simps)
next
  fix i
  assume "checks_deadline i \<and> \<not> reconnects w i"
  then show "if heartbeatAt w < clock wd (reads wd)
     then filter announcing (since wd (step_world (iteration i w msg wd))) =
            [SendMessage s ['''', MD_WORKER, MD_HEARTBEAT]] \<and>
          heartbeatAt (step_worker (iteration i w msg wd)) =
            clock wd (Suc (reads wd)) + heartbeat w
     else filter announcing (since wd (step_world (iteration i w msg wd))) = [] \<and>
          heartbeatAt (step_worker (iteration i w msg wd)) = heartbeatAt w"
    using checked_turn [OF assms, of i wd msg] by simp
next
  fix i
  assume "checks_deadline i \<and> reconnects w i"
  then show "if clock wd (reads wd) + heartbeat w < clock wd (Suc (reads wd))
     then filter announcing (since wd (step_world (iteration i w msg wd))) =
            [SendMessage (sockets wd) ['''', MD_WORKER, MD_READY, serviceName w],
             SendMessage (sockets wd) ['''', MD_WORKER, MD_HEARTBEAT]] \<and>
          heartbeatAt (step_worker (iteration i w msg wd)) =
            clock wd (Suc (Suc (reads wd))) + heartbeat w
     else filter announcing (since wd (step_world (iteration i w msg wd))) =
            [SendMessage (sockets wd) ['''', MD_WORKER, MD_READY, serviceName w]] \<and>
          heartbeatAt (step_worker (iteration i w msg wd)) =
            clock wd (reads wd) + heartbeat w"
    using reconnecting_turn [OF assms, of i wd msg] by simp
next
  fix addr name hb rc pi maxl action w1 wd1
  assume "newWorker addr name hb rc pi maxl action wd = Ok w1 wd1"
  then show "heartbeatAt w1 = clock wd (reads wd) + hb"
    by (auto simp add: newWorker_def reconnectToBroker_eq)
qed

text \<open>
  With the deadline at 100, an interval of 10 and the clock at 150 and then 160, the
  turn of a timed-out poll sends the heartbeat and leaves the deadline at 170: it is
  not advanced by the interval, to 110. With the same overdue deadline the turn of a
  failed poll sends no heartbeat. And with the deadline at 150, reached by the clock's
  reading 150 but not passed, the turn of a timed-out poll sends none either.
\<close>

theorem deadline_counterexample:
  "clock late_world (reads late_world) = 150 \<and>
   heartbeatAt late_worker + heartbeat late_worker = 110 \<and>
   heartbeatAt (step_worker (iteration (PollResult PollTimeout) late_worker [] late_world)) = 170 \<and>
   iteration (PollResult (PollFailed ''EINTR'')) late_worker [] late_world =
     Continue late_worker []
       (late_world\<lparr>trace := trace late_world @
          [Poll 0 10, Log Error (PollingFailed ''EINTR'')]\<rparr>) \<and>
   iteration (PollResult PollTimeout) (late_worker\<lparr>heartbeatAt := 150\<rparr>) [] late_world =
     Continue (late_worker\<lparr>heartbeatAt := 150, liveness := 2\<rparr>) []
       (late_world\<lparr>reads := 2, trace := trace late_world @ [Poll 0 10]\<rparr>)"
  by (simp add: timeout_iteration [of _ 0] heartbeatCheck_eq [of _ 0] failed_iteration [of _ 0]
      late_worker_def late_world_def echo_worker_def echo_world_def fresh_world_def
      del: iteration.simps)

text \<open>
  A quiet turn, a failed poll and a request with the deadline overdue, the check when
  it is due and when it is not, a DISCONNECT, and the constructor.
\<close>

theorem deadline_recomputed_witness:
  "heartbeatAt (step_worker (iteration (PollResult PollTimeout) echo_worker [] echo_world)) = 25 \<and>
   filter announcing (since late_world
     (step_world (iteration (PollResult (PollFailed ''EINTR'')) late_worker [] late_world))) = [] \<and>
   heartbeatAt (step_worker
     (iteration (PollResult (PollFailed ''EINTR'')) late_worker [] late_world)) = 100 \<and>
   SendMessage 0 ['''', ''MDPW01'', [CHR 0x03], ''CID-1'', '''', ''hello'']
     \<in> set (since late_world (step_world (iteration
         (PollResult (PollReadable ['''', ''MDPW01'', [CHR 0x02], ''CID-1'', '''', ''hello'']))
         late_worker [] late_world))) \<and>
   heartbeatAt (step_worker (iteration
     (PollResult (PollReadable ['''', ''MDPW01'', [CHR 0x02], ''CID-1'', '''', ''hello'']))
     late_worker [] late_world)) = 100 \<and>
   filter announcing (since late_world
     (step_world (iteration (PollResult PollTimeout) late_worker [] late_world))) =
     [SendMessage 0 ['''', ''MDPW01'', [CHR 0x04]]] \<and>
   heartbeatAt (step_worker (iteration (PollResult PollTimeout) late_worker [] late_world)) = 170 \<and>
   filter announcing (since echo_world
     (step_world (iteration (PollResult PollTimeout) echo_worker [] echo_world))) = [] \<and>
   filter announcing (since echo_world (step_world
     (iteration (PollResult (PollReadable ['''', ''MDPW01'', [CHR 0x05]])) echo_worker []
        echo_world))) =
     [SendMessage 1 ['''', ''MDPW01'', [CHR 0x01], ''echo'']] \<and>
   heartbeatAt (step_worker
     (iteration (PollResult (PollReadable ['''', ''MDPW01'', [CHR 0x05]])) echo_worker []
        echo_world)) = 35 \<and>
   heartbeatAt echo_worker = clock fresh_world (reads fresh_world) + 25"
proof -
  let ?req = "['''', ''MDPW01'', [CHR 0x02], ''CID-1'', '''', ''hello'']"
  let ?dis = "['''', ''MDPW01'', [CHR 0x05]]"
  have s: "socket late_worker = Some 0" "socket echo_worker = Some 0"
    by (simp_all add: late_worker_def echo_worker_def)
  note late = deadline_recomputed [OF s(1), where wd = late_world and msg = "[]" and m = ?req]
  note calm = deadline_recomputed [OF s(2), where wd = echo_world and msg = "[]" and m = ?req]
  note born = deadline_recomputed [OF s(2), where wd = fresh_world and msg = "[]" and m = ?req]
  have v: "heartbeatAt late_worker = 100" "heartbeat late_worker = 10"
    "heartbeatAt echo_worker = 25" "heartbeat echo_worker = 25"
    "clock late_world (reads late_world) = 150" "clock late_world (Suc (reads late_world)) = 160"
    "clock echo_world (reads echo_world) = 10" "clock echo_world (Suc (reads echo_world)) = 20"
    "sockets echo_world = 1" "serviceName echo_worker = ''echo''"
    "workerAction late_worker [''hello''] = [''hello'']"
    "sint (liveness late_worker - 1) = 2" "sint (liveness echo_worker - 1) = 2"
    by (simp_all add: late_worker_def late_world_def echo_worker_def echo_world_def
        fresh_world_def echo_def)
  have a: "filter announcing (since late_world
       (step_world (iteration (PollResult (PollFailed ''EINTR'')) late_worker [] late_world))) = []"
    "heartbeatAt (step_worker
       (iteration (PollResult (PollFailed ''EINTR'')) late_worker [] late_world)) = 100"
    using late [THEN conjunct2, THEN conjunct1, rule_format, of "PollResult (PollFailed ''EINTR'')"]
    by (simp_all add: v del: iteration.simps)
  have b: "SendMessage 0 ['''', ''MDPW01'', [CHR 0x03], ''CID-1'', '''', ''hello'']
       \<in> set (since late_world (step_world (iteration (PollResult (PollReadable ?req))
           late_worker [] late_world)))"
    "heartbeatAt (step_worker (iteration (PollResult (PollReadable ?req))
       late_worker [] late_world)) = 100"
    using late [THEN conjunct2, THEN conjunct2, THEN conjunct1]
    by (simp_all add: v MD_REQUEST_def MD_WORKER_def MD_REPLY_def del: iteration.simps)
  have c: "filter announcing (since late_world
       (step_world (iteration (PollResult PollTimeout) late_worker [] late_world))) =
       [SendMessage 0 ['''', ''MDPW01'', [CHR 0x04]]]"
    "heartbeatAt (step_worker (iteration (PollResult PollTimeout) late_worker [] late_world)) = 170"
    using late [THEN conjunct2, THEN conjunct2, THEN conjunct2, THEN conjunct1, rule_format,
        of "PollResult PollTimeout"]
    by (simp_all add: v MD_WORKER_def MD_HEARTBEAT_def del: iteration.simps)
  have d: "filter announcing (since echo_world
       (step_world (iteration (PollResult PollTimeout) echo_worker [] echo_world))) = []"
    using calm [THEN conjunct2, THEN conjunct2, THEN conjunct2, THEN conjunct1, rule_format,
        of "PollResult PollTimeout"]
    by (simp add: v del: iteration.simps)
  have e: "heartbeatAt (step_worker
       (iteration (PollResult PollTimeout) echo_worker [] echo_world)) = 25"
    using calm [THEN conjunct1, rule_format, OF d] by (simp add: v)
  have f: "filter announcing (since echo_world (step_world
       (iteration (PollResult (PollReadable ?dis)) echo_worker [] echo_world))) =
       [SendMessage 1 ['''', ''MDPW01'', [CHR 0x01], ''echo'']]"
    "heartbeatAt (step_worker
       (iteration (PollResult (PollReadable ?dis)) echo_worker [] echo_world)) = 35"
    using calm [THEN conjunct2, THEN conjunct2, THEN conjunct2, THEN conjunct2, THEN conjunct1,
        rule_format, of "PollResult (PollReadable ?dis)"]
    by (simp_all add: v MD_WORKER_def MD_READY_def MD_DISCONNECT_def MD_REQUEST_def
        del: iteration.simps)
  have g: "heartbeatAt echo_worker = clock fresh_world (reads fresh_world) + 25"
    using born [THEN conjunct2, THEN conjunct2, THEN conjunct2, THEN conjunct2, THEN conjunct2,
        rule_format, OF newWorker_echo] .
  show ?thesis using a b c d e f g by (simp del: iteration.simps)
qed

subsection \<open>Failures of the transport\<close>

lemma iteration_send_error:
  "iteration i w msg (wd\<lparr>send_error := f\<rparr>) = with_send_error f (iteration i w msg wd)"
proof (cases "socket w")
  case None
  then show ?thesis
    by (cases i) (simp_all add: cleanup_def emit_def logDebug_def)
next
  case (Some s)
  show ?thesis
  proof (cases i)
    case ShutdownSignal
    then show ?thesis by (simp add: shutdown_iteration del: iteration.simps)
  next
    case (PollResult r)
    show ?thesis
    proof (cases r)
      case (PollFailed e)
      then show ?thesis using PollResult Some
        by (simp add: failed_iteration del: iteration.simps)
    next
      case PollTimeout
      then show ?thesis using PollResult Some
        by (simp add: timeout_iteration reconnect_then_check heartbeatCheck_eq
            del: iteration.simps)
    next
      case (PollReadable m)
      consider (short) "length m < 3"
        | (req) "3 \<le> length m" "m ! 2 = MD_REQUEST" "length m < 5"
        | (req5) "m ! 2 = MD_REQUEST" "5 \<le> length m"
        | (dis) "3 \<le> length m" "m ! 2 = MD_DISCONNECT"
        | (other) "3 \<le> length m" "m ! 2 \<noteq> MD_REQUEST" "m ! 2 \<noteq> MD_DISCONNECT"
        by fastforce
      then show ?thesis
      proof cases
        case short
        then show ?thesis using PollResult PollReadable Some
          by (simp add: malformed_iteration del: iteration.simps)
      next
        case req
        then show ?thesis using PollResult PollReadable Some
          by (simp add: short_request_iteration del: iteration.simps)
      next
        case req5
        then show ?thesis using PollResult PollReadable Some
          by (simp add: request_iteration del: iteration.simps)
      next
        case dis
        then show ?thesis using PollResult PollReadable Some
          by (simp add: disconnect_iteration reconnect_then_check del: iteration.simps)
      next
        case other
        then show ?thesis using PollResult PollReadable Some
          by (simp add: idle_iteration heartbeatCheck_eq del: iteration.simps)
      qed
    qed
  qed
qed

lemma iteration_Return:
  assumes "iteration i w msg wd = Return m err w' wd'"
  shows "(err = Some ''Graceful shutdown'' \<and> (\<exists>tr. trace wd' = tr @ [Term, Log Debug ClosedAll])) \<or>
         (err = None \<and>
          (\<exists>tr n c. trace wd' =
             tr @ [SendMessage n (['''', MD_WORKER, MD_REPLY, c, ''''] @ m),
                   Log Debug (SentCommand MD_REPLY (Some ('''' # m)))]))"
proof (cases i)
  case ShutdownSignal
  then have "trace wd' = (trace wd @ closing w) @ [Term, Log Debug ClosedAll]"
    and "err = Some ''Graceful shutdown''"
    using assms by (auto simp add: shutdown_iteration simp del: iteration.simps)
  then show ?thesis by blast
next
  case (PollResult r)
  show ?thesis
  proof (cases "socket w")
    case None
    then show ?thesis using assms PollResult by simp
  next
    case (Some s)
    show ?thesis
    proof (cases r)
      case (PollFailed e)
      then show ?thesis using PollResult Some assms
        by (simp add: failed_iteration del: iteration.simps)
    next
      case PollTimeout
      then show ?thesis using PollResult Some assms
        by (simp add: timeout_iteration reconnect_then_check heartbeatCheck_eq
            del: iteration.simps split: if_splits)
    next
      case (PollReadable q)
      consider (short) "length q < 3"
        | (req) "3 \<le> length q" "q ! 2 = MD_REQUEST" "length q < 5"
        | (req5) "q ! 2 = MD_REQUEST" "5 \<le> length q"
        | (dis) "3 \<le> length q" "q ! 2 = MD_DISCONNECT"
        | (other) "3 \<le> length q" "q ! 2 \<noteq> MD_REQUEST" "q ! 2 \<noteq> MD_DISCONNECT"
        by fastforce
      then show ?thesis
      proof cases
        case short
        then show ?thesis using PollResult PollReadable Some assms
          by (simp add: malformed_iteration del: iteration.simps)
      next
        case req
        then show ?thesis using PollResult PollReadable Some assms
          by (simp add: short_request_iteration del: iteration.simps)
      next
        case req5
        then have "err = None" and
          "trace wd' = (trace wd @ [Poll s (pollInterval w), RecvMessage s q,
              Log Debug (ReceivedRequest (drop 5 q)), Call (drop 5 q)]) @
             [SendMessage s (['''', MD_WORKER, MD_REPLY, q ! 3, ''''] @ m),
              Log Debug (SentCommand MD_REPLY (Some ('''' # m)))]"
          using PollResult PollReadable Some assms
          by (auto simp add: request_iteration simp del: iteration.simps)
        then show ?thesis by blast
      next
        case dis
        then show ?thesis using PollResult PollReadable Some assms
          by (simp add: disconnect_iteration reconnect_then_check
              del: iteration.simps split: if_splits)
      next
        case other
        then show ?thesis using PollResult PollReadable Some assms
          by (simp add: idle_iteration heartbeatCheck_eq del: iteration.simps split: if_splits)
      qed
    qed
  qed
qed

lemma Receive_loop_Returns:
  assumes "Receive_loop ins w msg wd = Returns m err w' wd'"
  shows "(err = Some ''Graceful shutdown'' \<and> (\<exists>tr. trace wd' = tr @ [Term, Log Debug ClosedAll])) \<or>
         (err = None \<and>
          (\<exists>tr n c. trace wd' =
             tr @ [SendMessage n (['''', MD_WORKER, MD_REPLY, c, ''''] @ m),
                   Log Debug (SentCommand MD_REPLY (Some ('''' # m)))]))"
  using assms
proof (induction ins arbitrary: w msg wd)
  case Nil
  then show ?case by simp
next
  case (Cons i ins)
  show ?case
  proof (cases "iteration i w msg wd")
    case (Continue w1 msg1 wd1)
    then have "Receive_loop ins w1 msg1 wd1 = Returns m err w' wd'"
      using Cons.prems by (simp del: iteration.simps)
    then show ?thesis by (rule Cons.IH)
  next
    case (Return m1 e1 w1 wd1)
    then have "iteration i w msg wd = Return m err w' wd'"
      using Cons.prems by (simp del: iteration.simps)
    then show ?thesis by (rule iteration_Return)
  next
    case (Panicked p w1 wd1)
    then show ?thesis using Cons.prems by (simp del: iteration.simps)
  qed
qed

text \<open>
  C5, as the code has it: a poll failure is logged at error level and the turn ends
  there, the loop going on; the error of a send changes nothing at all (the worker, the
  trace with its log records and the way the turn ends are the same whatever the sends
  return); and when \<open>Receive\<close> returns, it returns either the shutdown error, after the
  context was terminated, or a nil error with the reply \<open>m\<close> that it has just sent.
\<close>

theorem failures_absorbed:
  assumes "socket w = Some s"
  shows "iteration (PollResult (PollFailed e)) w msg wd =
           Continue w msg
             (wd\<lparr>trace := trace wd @ [Poll s (pollInterval w), Log Error (PollingFailed e)]\<rparr>) \<and>
         (\<forall>i f. iteration i w msg (wd\<lparr>send_error := f\<rparr>) =
                  with_send_error f (iteration i w msg wd)) \<and>
         (\<forall>ins m err w' wd'. Receive_loop ins w msg wd = Returns m err w' wd' \<longrightarrow>
            (err = Some ''Graceful shutdown'' \<and>
               (\<exists>tr. trace wd' = tr @ [Term, Log Debug ClosedAll])) \<or>
            (err = None \<and>
               (\<exists>tr n c. trace wd' =
                  tr @ [SendMessage n (['''', MD_WORKER, MD_REPLY, c, ''''] @ m),
                        Log Debug (SentCommand MD_REPLY (Some ('''' # m)))])))"
  using assms Receive_loop_Returns [of _ w msg wd]
  by (simp add: failed_iteration iteration_send_error del: iteration.simps)

text \<open>
  A send failure is not logged: the heartbeat send of this turn returns the error
  \<open>EAGAIN\<close>, and the only log record of the turn is the debug record of a sent
  command, the same record as when the send succeeds.
\<close>

theorem send_failure_counterexample:
  "sendToBroker MD_HEARTBEAT None None late_worker deaf_world =
     Ok (Some ''EAGAIN'') (deaf_world\<lparr>sends := 2, trace := trace deaf_world @ beat 0\<rparr>) \<and>
   since deaf_world (step_world (iteration (PollResult PollTimeout) late_worker [] deaf_world)) =
     [Poll 0 10, SendMessage 0 ['''', ''MDPW01'', [CHR 0x04]],
      Log Debug (SentCommand [CHR 0x04] None)] \<and>
   since late_world (step_world (iteration (PollResult PollTimeout) late_worker [] late_world)) =
     [Poll 0 10, SendMessage 0 ['''', ''MDPW01'', [CHR 0x04]],
      Log Debug (SentCommand [CHR 0x04] None)]"
  by (simp add: sendToBroker_socket [of _ 0] timeout_iteration [of _ 0] heartbeatCheck_eq [of _ 0]
      deaf_world_def late_worker_def late_world_def echo_worker_def echo_world_def
      fresh_world_def since_def beat_def MD_WORKER_def MD_HEARTBEAT_def del: iteration.simps)

text \<open>A failed poll, a turn whose heartbeat send fails, and a shutdown.\<close>

theorem failures_absorbed_witness:
  "iteration (PollResult (PollFailed ''EINTR'')) echo_worker [] echo_world =
     Continue echo_worker []
       (echo_world\<lparr>trace := trace echo_world @
          [Poll 0 10, Log Error (PollingFailed ''EINTR'')]\<rparr>) \<and>
   iteration (PollResult PollTimeout) late_worker [] deaf_world =
     with_send_error (\<lambda>n. Some ''EAGAIN'')
       (iteration (PollResult PollTimeout) late_worker [] late_world) \<and>
   Receive_loop [ShutdownSignal] echo_worker [] echo_world =
     Returns [] (Some ''Graceful shutdown'') echo_worker
       (echo_world\<lparr>trace := trace echo_world @ [Close 0, Term, Log Debug ClosedAll]\<rparr>) \<and>
   (\<exists>tr. trace echo_world @ [Close 0, Term, Log Debug ClosedAll] =
      tr @ [Term, Log Debug ClosedAll])"
proof -
  have s: "socket echo_worker = Some 0" "socket late_worker = Some 0"
    by (simp_all add: late_worker_def echo_worker_def)
  have r: "Receive_loop [ShutdownSignal] echo_worker [] echo_world =
     Returns [] (Some ''Graceful shutdown'') echo_worker
       (echo_world\<lparr>trace := trace echo_world @ [Close 0, Term, Log Debug ClosedAll]\<rparr>)"
    by (simp add: shutdown_iteration closing_def echo_worker_def del: iteration.simps)
  have d: "deaf_world = late_world\<lparr>send_error := (\<lambda>n. Some ''EAGAIN'')\<rparr>"
    by (simp add: deaf_world_def)
  have a: "iteration (PollResult (PollFailed ''EINTR'')) echo_worker [] echo_world =
     Continue echo_worker []
       (echo_world\<lparr>trace := trace echo_world @
          [Poll 0 10, Log Error (PollingFailed ''EINTR'')]\<rparr>)"
    using failures_absorbed [OF s(1), of "''EINTR''" "[]" echo_world, THEN conjunct1]
    by (simp add: echo_worker_def del: iteration.simps)
  have b: "iteration (PollResult PollTimeout) late_worker [] deaf_world =
     with_send_error (\<lambda>n. Some ''EAGAIN'')
       (iteration (PollResult PollTimeout) late_worker [] late_world)"
    using failures_absorbed [OF s(2), of "''EINTR''" "[]" late_world, THEN conjunct2,
        THEN conjunct1, rule_format, of "PollResult PollTimeout" "\<lambda>n. Some ''EAGAIN''"]
    unfolding d .
  have c: "\<exists>tr. trace echo_world @ [Close 0, Term, Log Debug ClosedAll] =
      tr @ [Term, Log Debug ClosedAll]"
    using failures_absorbed [OF s(1), of "''EINTR''" "[]" echo_world, THEN conjunct2,
        THEN conjunct2, rule_format, OF r]
    by simp
  show ?thesis using a b c r by (simp del: iteration.simps Receive_loop.simps)
qed

subsection \<open>READY\<close>

lemma sends_on_append: "sends_on n (a @ b) = sends_on n a @ sends_on n b"
  by (induction n a rule: sends_on.induct) simp_all

lemma greeted_append: "greeted name a \<Longrightarrow> greeted name b \<Longrightarrow> greeted name (a @ b)"
  by (induction name a rule: greeted.induct) (auto split: list.splits)

lemma harmless_sends:
  "list_all (harmless N) es \<Longrightarrow>
   (\<forall>m\<in>set (sends_on n es). \<not> is_ready m) \<and> (N \<le> n \<longrightarrow> sends_on n es = [])"
proof (induction es)
  case Nil
  then show ?case by simp
next
  case (Cons e es)
  then show ?case by (cases e) auto
qed

lemma harmless_greeted: "list_all (harmless N) es \<Longrightarrow> greeted name es"
proof (induction es)
  case Nil
  then show ?case by simp
next
  case (Cons e es)
  then show ?case by (cases e) auto
qed

lemma harmless_counts:
  "list_all (harmless N) es \<Longrightarrow>
   filter ready_sent es = [] \<and> filter is_new es = [] \<and> (\<forall>n. NewSocket n \<notin> set es)"
proof (induction es)
  case Nil
  then show ?case by simp
next
  case (Cons e es)
  then show ?case by (cases e) auto
qed

lemma filter_empty_conv': "(\<forall>m\<in>set xs. \<not> P m) \<Longrightarrow> filter P xs = []"
  by (induction xs) auto

lemma ready_inv_list:
  assumes "ready_inv name N tr" and "list_all (harmless N) es"
  shows "ready_inv name N (tr @ es)"
proof -
  have s: "\<And>n. filter is_ready (sends_on n es) = []" "\<And>n. N \<le> n \<Longrightarrow> sends_on n es = []"
    using harmless_sends [OF assms(2)] by (simp_all add: filter_empty_conv')
  have g: "greeted name es" using assms(2) by (rule harmless_greeted)
  have c: "filter ready_sent es = []" "filter is_new es = []" "\<And>n. NewSocket n \<notin> set es"
    using harmless_counts [OF assms(2)] by simp_all
  show ?thesis
    using assms(1) s g c
    by (simp add: ready_inv_def sends_on_append greeted_append)
qed

lemma ready_inv_greeting:
  assumes "ready_inv name N tr"
  shows "ready_inv name (Suc N) (tr @ greeting name addr N)"
proof -
  have s: "\<And>n. sends_on n (greeting name addr N) =
      (if n = N then ['''', MD_WORKER, MD_READY, name] # [] else [])"
    by (simp add: greeting_def)
  have r: "is_ready ['''', MD_WORKER, MD_READY, name]" by (simp add: is_ready_def)
  have g: "greeted name (greeting name addr N)" by (simp add: greeting_def)
  have c: "filter ready_sent (greeting name addr N) =
      [SendMessage N ['''', MD_WORKER, MD_READY, name]]"
    "filter is_new (greeting name addr N) = [NewSocket N]"
    "\<And>n. NewSocket n \<in> set (greeting name addr N) \<longleftrightarrow> n = N"
    by (auto simp add: greeting_def r)
  show ?thesis
    using assms s r g c
    by (auto simp add: ready_inv_def sends_on_append greeted_append less_Suc_eq)
qed

lemma ready_inv_handshake:
  assumes "ready_inv (serviceName w) N tr"
    and "list_all (harmless N) X" and "list_all (harmless (Suc N)) Y"
  shows "ready_inv (serviceName w) (Suc N) (tr @ X @ handshake w N @ Y)"
proof -
  let ?a = "X @ closing w @ [Log Debug (AttemptingConnection (brokerAddress w))]"
  let ?b = "Log Debug (SentCommand MD_READY None) # Y"
  have "list_all (harmless N) ?a"
    using assms(2) by (simp add: closing_def split: option.splits)
  then have "ready_inv (serviceName w) N (tr @ ?a)"
    using assms(1) by (rule ready_inv_list [rotated])
  then have "ready_inv (serviceName w) (Suc N)
      ((tr @ ?a) @ greeting (serviceName w) (brokerAddress w) N)"
    by (rule ready_inv_greeting)
  moreover have "list_all (harmless (Suc N)) ?b" using assms(3) by simp
  ultimately have "ready_inv (serviceName w) (Suc N)
      (((tr @ ?a) @ greeting (serviceName w) (brokerAddress w) N) @ ?b)"
    by (rule ready_inv_list)
  then show ?thesis by (simp add: handshake_def)
qed

lemma ready_state_emit:
  assumes "ready_state w wd" and "list_all (harmless (sockets wd)) es"
    and "socket w' = socket w" and "serviceName w' = serviceName w"
    and "sockets wd' = sockets wd" and "trace wd' = trace wd @ es"
  shows "ready_state w' wd'"
  using assms ready_inv_list [of "serviceName w" "sockets wd" "trace wd" es]
  by (simp add: ready_state_def)

lemma beat_harmless: "s < N \<Longrightarrow> list_all (harmless N) (beat s)"
  by (simp add: commands_differ beat_def is_ready_def)

lemma heartbeatCheck_ready:
  assumes "ready_state w wd"
  shows "ready_state (step_worker (heartbeatCheck w msg wd)) (step_world (heartbeatCheck w msg wd))"
proof -
  from assms obtain s where s: "socket w = Some s" "s < sockets wd"
    by (auto simp add: ready_state_def)
  show ?thesis
  proof (cases "heartbeatAt w < clock wd (reads wd)")
    case True
    then show ?thesis using s
      by (simp add: heartbeatCheck_eq)
        (rule ready_state_emit [OF assms beat_harmless [OF s(2)]], simp_all)
  next
    case False
    then show ?thesis using s
      by (simp add: heartbeatCheck_eq)
        (rule ready_state_emit [OF assms, of "[]"], simp_all)
  qed
qed

lemma reconnect_ready:
  assumes "ready_inv (serviceName w) (sockets wd) (trace wd)"
  shows "ready_state
     (step_worker (case reconnectToBroker w wd of
        Panic p w' wd' \<Rightarrow> Panicked p w' wd' | Ok w2 wd2 \<Rightarrow> heartbeatCheck w2 msg wd2))
     (step_world (case reconnectToBroker w wd of
        Panic p w' wd' \<Rightarrow> Panicked p w' wd' | Ok w2 wd2 \<Rightarrow> heartbeatCheck w2 msg wd2))"
proof -
  have a: "ready_inv (serviceName w) (Suc (sockets wd))
      (trace wd @ [] @ handshake w (sockets wd) @ beat (sockets wd))"
    by (rule ready_inv_handshake [OF assms]) (simp_all add: beat_harmless)
  have b: "ready_inv (serviceName w) (Suc (sockets wd))
      (trace wd @ [] @ handshake w (sockets wd) @ [])"
    by (rule ready_inv_handshake [OF assms]) simp_all
  show ?thesis using a b
    by (simp add: reconnect_then_check ready_state_def)
qed

lemma iteration_ready:
  assumes "ready_state w wd"
  shows "ready_state (step_worker (iteration i w msg wd)) (step_world (iteration i w msg wd))"
proof -
  from assms obtain s where s: "socket w = Some s" "s < sockets wd"
    by (auto simp add: ready_state_def)
  have inv: "ready_inv (serviceName w) (sockets wd) (trace wd)"
    using assms by (simp add: ready_state_def)
  show ?thesis
  proof (cases i)
    case ShutdownSignal
    show ?thesis unfolding ShutdownSignal shutdown_iteration
      by (rule ready_state_emit [OF assms, of "closing w @ [Term, Log Debug ClosedAll]"])
        (simp_all add: closing_def split: option.splits)
  next
    case (PollResult r)
    show ?thesis
    proof (cases r)
      case (PollFailed e)
      show ?thesis unfolding PollResult PollFailed failed_iteration [OF s(1)]
        by (rule ready_state_emit [OF assms,
              of "[Poll s (pollInterval w), Log Error (PollingFailed e)]"]) simp_all
    next
      case PollTimeout
      show ?thesis
      proof (cases "sint (liveness w - 1) \<le> 0")
        case True
        have "ready_inv (serviceName w) (sockets wd)
            (trace wd @ [Poll s (pollInterval w),
               Log Warn (NothingReceived (maxLivenessCount w) (reconnect w)),
               Sleep (reconnect w)])"
          by (rule ready_inv_list [OF inv]) simp
        then show ?thesis unfolding PollResult PollTimeout timeout_iteration [OF s(1)]
          using True
            reconnect_ready [of "w\<lparr>liveness := liveness w - 1\<rparr>"
              "wd\<lparr>trace := trace wd @ [Poll s (pollInterval w),
                 Log Warn (NothingReceived (maxLivenessCount w) (reconnect w)),
                 Sleep (reconnect w)]\<rparr>" msg]
          by simp
      next
        case False
        have "ready_state (w\<lparr>liveness := liveness w - 1\<rparr>)
            (wd\<lparr>trace := trace wd @ [Poll s (pollInterval w)]\<rparr>)"
          by (rule ready_state_emit [OF assms, of "[Poll s (pollInterval w)]"]) simp_all
        then show ?thesis unfolding PollResult PollTimeout timeout_iteration [OF s(1)]
          using False by (simp add: heartbeatCheck_ready)
      qed
    next
      case (PollReadable m)
      consider (short) "length m < 3"
        | (req) "3 \<le> length m" "m ! 2 = MD_REQUEST" "length m < 5"
        | (req5) "m ! 2 = MD_REQUEST" "5 \<le> length m"
        | (dis) "3 \<le> length m" "m ! 2 = MD_DISCONNECT"
        | (other) "3 \<le> length m" "m ! 2 \<noteq> MD_REQUEST" "m ! 2 \<noteq> MD_DISCONNECT"
        by fastforce
      then show ?thesis
      proof cases
        case short
        show ?thesis unfolding PollResult PollReadable malformed_iteration [OF s(1) short]
          by (rule ready_state_emit [OF assms, of "[Poll s (pollInterval w), RecvMessage s m,
                Log Error (NotEnoughFrames (length m))]"]) simp_all
      next
        case req
        show ?thesis unfolding PollResult PollReadable short_request_iteration [OF s(1) req(1,3,2)]
          by (rule ready_state_emit [OF assms, of "[Poll s (pollInterval w), RecvMessage s m]"])
            simp_all
      next
        case req5
        show ?thesis unfolding PollResult PollReadable request_iteration [OF s(1) req5(2,1)]
          by (rule ready_state_emit [OF assms, of "[Poll s (pollInterval w), RecvMessage s m,
                Log Debug (ReceivedRequest (drop 5 m)), Call (drop 5 m),
                SendMessage s (['''', MD_WORKER, MD_REPLY, m ! 3, ''''] @ workerAction w (drop 5 m)),
                Log Debug (SentCommand MD_REPLY (Some ('''' # workerAction w (drop 5 m))))]"])
            (simp_all add: commands_differ s(2) is_ready_def)
      next
        case dis
        have "ready_inv (serviceName w) (sockets wd)
            (trace wd @ [Poll s (pollInterval w), RecvMessage s m, Log Debug ReceivedDisconnect])"
          by (rule ready_inv_list [OF inv]) simp
        then show ?thesis unfolding PollResult PollReadable disconnect_iteration [OF s(1) dis]
          using reconnect_ready [of "w\<lparr>liveness := maxLivenessCount w\<rparr>"
              "wd\<lparr>trace := trace wd @ [Poll s (pollInterval w), RecvMessage s m,
                 Log Debug ReceivedDisconnect]\<rparr>" m]
          by simp
      next
        case other
        have "ready_state (w\<lparr>liveness := maxLivenessCount w\<rparr>)
            (wd\<lparr>trace := trace wd @ [Poll s (pollInterval w), RecvMessage s m,
               Log Debug (if m ! 2 = MD_HEARTBEAT then ReceivedHeartbeat
                          else UnknownCommand (m ! 2))]\<rparr>)"
          by (rule ready_state_emit [OF assms, of "[Poll s (pollInterval w), RecvMessage s m,
                Log Debug (if m ! 2 = MD_HEARTBEAT then ReceivedHeartbeat
                           else UnknownCommand (m ! 2))]"]) simp_all
        then show ?thesis unfolding PollResult PollReadable idle_iteration [OF s(1) other]
          by (rule heartbeatCheck_ready)
      qed
    qed
  qed
qed

lemma reachable_ready: "reachable w wd \<Longrightarrow> ready_state w wd"
proof (induction rule: reachable.induct)
  case (constructed addr name hb rc pi maxl action c f w wd)
  let ?w0 = "\<lparr>shutdown = make_chan 0, brokerAddress = addr, serviceName = name, heartbeat = hb,
        reconnect = rc, pollInterval = pi, maxLivenessCount = maxl, liveness = 0,
        heartbeatAt = 0, socket = None, workerAction = action\<rparr>"
  have "ready_inv (serviceName ?w0) 0 []" by (simp add: ready_inv_def)
  then have "ready_inv (serviceName ?w0) (Suc 0) ([] @ [] @ handshake ?w0 0 @ [])"
    by (rule ready_inv_handshake) simp_all
  then show ?case using constructed
    by (auto simp add: newWorker_def reconnectToBroker_eq ready_state_def)
next
  case (turn w wd i msg)
  then show ?case by (simp add: iteration_ready del: iteration.simps)
qed

text \<open>
  C9: in every execution, on each socket the worker has created the first message
  sent is the READY with the service name and no other READY is sent on it; each
  connect is followed at once by that READY; and the trace holds as many READY sends
  as created sockets, one for each reconnect. (A frame counts as sent when it is handed
  to \<open>SendMessage\<close>; a reconnect cannot report a failure.)
\<close>

theorem ready_once_per_socket:
  assumes "reachable w wd"
  shows "(\<forall>n. NewSocket n \<in> set (trace wd) \<longrightarrow>
            sends_on n (trace wd) \<noteq> [] \<and>
            hd (sends_on n (trace wd)) = ['''', MD_WORKER, MD_READY, serviceName w] \<and>
            length (filter is_ready (sends_on n (trace wd))) = 1) \<and>
         greeted (serviceName w) (trace wd) \<and>
         length (filter ready_sent (trace wd)) = length (filter is_new (trace wd))"
  using reachable_ready [OF assms] by (simp add: ready_state_def ready_inv_def)

text \<open>After the constructor and one DISCONNECT turn: two sockets, two READY.\<close>

theorem ready_once_per_socket_witness:
  "reachable (step_worker bounced) (step_world bounced) \<and>
   NewSocket 1 \<in> set (trace (step_world bounced)) \<and>
   sends_on 1 (trace (step_world bounced)) \<noteq> [] \<and>
   hd (sends_on 1 (trace (step_world bounced))) = ['''', ''MDPW01'', [CHR 0x01], ''echo''] \<and>
   length (filter is_ready (sends_on 1 (trace (step_world bounced)))) = 1 \<and>
   greeted ''echo'' (trace (step_world bounced)) \<and>
   length (filter ready_sent (trace (step_world bounced))) = 2 \<and>
   length (filter is_new (trace (step_world bounced))) = 2"
proof -
  have r0: "reachable echo_worker echo_world"
    using newWorker_echo by (auto simp add: fresh_world_def intro: reachable.constructed)
  have r1: "reachable (step_worker bounced) (step_world bounced)"
    unfolding bounced_def by (rule reachable.turn [OF r0])
  have b: "bounced =
    Continue (echo_worker\<lparr>socket := Some 1, heartbeatAt := 35\<rparr>) ['''', ''MDPW01'', [CHR 0x05]]
      (echo_world\<lparr>sockets := 2, sends := 2, reads := 3,
         trace := trace echo_world @
           [Poll 0 10, RecvMessage 0 ['''', ''MDPW01'', [CHR 0x05]], Log Debug ReceivedDisconnect] @
           handshake echo_worker 1\<rparr>)"
    by (simp add: bounced_def disconnect_iteration [of _ 0] reconnect_then_check echo_worker_def
        echo_world_def fresh_world_def MD_DISCONNECT_def handshake_def closing_def
        del: iteration.simps)
  have n: "NewSocket 1 \<in> set (trace (step_world bounced))"
    by (simp add: b handshake_def greeting_def)
  have c: "length (filter is_new (trace (step_world bounced))) = 2"
    by (simp add: b echo_world_def handshake_def greeting_def closing_def echo_worker_def)
  have sn: "serviceName (step_worker bounced) = ''echo''"
    by (simp add: b echo_worker_def)
  show ?thesis
    using r1 n ready_once_per_socket [OF r1] c
    by (simp add: sn MD_WORKER_def MD_READY_def)
qed

subsection \<open>The shutdown signal\<close>

lemma iteration_shutdown:
  "shutdown (step_worker (iteration i w msg wd)) = shutdown w"
proof (cases "socket w")
  case None
  then show ?thesis by (cases i) simp_all
next
  case (Some s)
  show ?thesis
  proof (cases i)
    case ShutdownSignal
    then show ?thesis by simp
  next
    case (PollResult r)
    show ?thesis
    proof (cases r)
      case (PollFailed e)
      then show ?thesis using PollResult Some
        by (simp add: failed_iteration del: iteration.simps)
    next
      case PollTimeout
      then show ?thesis using PollResult Some
        by (simp add: timeout_iteration reconnect_then_check heartbeatCheck_eq
            del: iteration.simps)
    next
      case (PollReadable m)
      consider (short) "length m < 3"
        | (req) "3 \<le> length m" "m ! 2 = MD_REQUEST" "length m < 5"
        | (req5) "m ! 2 = MD_REQUEST" "5 \<le> length m"
        | (dis) "3 \<le> length m" "m ! 2 = MD_DISCONNECT"
        | (other) "3 \<le> length m" "m ! 2 \<noteq> MD_REQUEST" "m ! 2 \<noteq> MD_DISCONNECT"
        by fastforce
      then show ?thesis
      proof cases
        case short
        then show ?thesis using PollResult PollReadable Some
          by (simp add: malformed_iteration del: iteration.simps)
      next
        case req
        then show ?thesis using PollResult PollReadable Some
          by (simp add: short_request_iteration del: iteration.simps)
      next
        case req5
        then show ?thesis using PollResult PollReadable Some
          by (simp add: request_iteration del: iteration.simps)
      next
        case dis
        then show ?thesis using PollResult PollReadable Some
          by (simp add: disconnect_iteration reconnect_then_check del: iteration.simps)
      next
        case other
        then show ?thesis using PollResult PollReadable Some
          by (simp add: idle_iteration heartbeatCheck_eq del: iteration.simps)
      qed
    qed
  qed
qed

lemma reachable_shutdown: "reachable w wd \<Longrightarrow> shutdown w = make_chan 0"
proof (induction rule: reachable.induct)
  case (constructed addr name hb rc pi maxl action c f w wd)
  then show ?case by (auto simp add: newWorker_def reconnectToBroker_eq)
next
  case (turn w wd i msg)
  then show ?case by (simp add: iteration_shutdown del: iteration.simps)
qed

lemma select_default:
  "shutdown w = make_chan 0 \<Longrightarrow> select_shutdown w r = (PollResult r, w)"
  by (simp add: select_shutdown_def chan_try_recv_def make_chan_def)

lemma Receive_live_quiet:
  "shutdown w = make_chan 0 \<Longrightarrow>
   Receive_live (map Turn rs) w msg wd = Receive_loop (map PollResult rs) w msg wd"
proof (induction rs arbitrary: w msg wd)
  case Nil
  then show ?case by simp
next
  case (Cons r rs)
  have keep: "shutdown (step_worker (iteration (PollResult r) w msg wd)) = make_chan 0"
    using Cons.prems by (simp add: iteration_shutdown del: iteration.simps)
  show ?case
  proof (cases "iteration (PollResult r) w msg wd")
    case (Continue w1 msg1 wd1)
    then have "shutdown w1 = make_chan 0" using keep by simp
    then show ?thesis using Continue Cons.prems Cons.IH [of w1 msg1 wd1]
      by (simp add: select_default del: iteration.simps)
  next
    case (Return m e w1 wd1)
    then show ?thesis using Cons.prems by (simp add: select_default del: iteration.simps)
  next
    case (Panicked p w1 wd1)
    then show ?thesis using Cons.prems by (simp add: select_default del: iteration.simps)
  qed
qed

lemma Receive_live_append:
  "Receive_live (xs @ ys) w msg wd =
     (case Receive_live xs w msg wd of
        Looping w' msg' wd' \<Rightarrow> Receive_live ys w' msg' wd'
      | Returns m e w' wd' \<Rightarrow> Returns m e w' wd'
      | Panics p w' wd' \<Rightarrow> Panics p w' wd')"
proof (induction xs arbitrary: w msg wd)
  case Nil
  then show ?case by simp
next
  case (Cons a xs)
  then show ?case
    by (cases a) (auto simp del: iteration.simps split: step.splits prod.splits)
qed

lemma Receive_loop_reachable:
  "reachable w wd \<Longrightarrow> Receive_loop ins w msg wd = Looping w' msg' wd' \<Longrightarrow> reachable w' wd'"
proof (induction ins arbitrary: w msg wd)
  case Nil
  then show ?case by simp
next
  case (Cons i ins)
  show ?case
  proof (cases "iteration i w msg wd")
    case (Continue w1 msg1 wd1)
    have "reachable (step_worker (iteration i w msg wd)) (step_world (iteration i w msg wd))"
      using Cons.prems(1) by (rule reachable.turn)
    then have "reachable w1 wd1" using Continue by simp
    moreover have "Receive_loop ins w1 msg1 wd1 = Looping w' msg' wd'"
      using Cons.prems(2) Continue by (simp del: iteration.simps)
    ultimately show ?thesis by (rule Cons.IH)
  next
    case (Return m e w1 wd1)
    then show ?thesis using Cons.prems(2) by (simp del: iteration.simps)
  next
    case (Panicked p w1 wd1)
    then show ?thesis using Cons.prems(2) by (simp del: iteration.simps)
  qed
qed

lemma Shutdown_parks:
  "shutdown w = make_chan 0 \<Longrightarrow>
   Shutdown w wd =
     (Parked, w\<lparr>shutdown := \<lparr>capacity = 0, buffer = [], parked = Some True\<rparr>\<rparr>,
      wd\<lparr>trace := trace wd @ [Log Debug AttemptingShutdown]\<rparr>)"
  by (simp add: Shutdown_def chan_send_def make_chan_def logDebug_def emit_def)

lemma select_parked:
  "shutdown w = make_chan 0 \<Longrightarrow>
   select_shutdown (w\<lparr>shutdown := \<lparr>capacity = 0, buffer = [], parked = Some True\<rparr>\<rparr>) r =
     (ShutdownSignal, w)"
  by (simp add: select_shutdown_def chan_try_recv_def make_chan_def)

text \<open>
  C10, as the code has it: while \<open>Receive\<close> loops with nobody calling \<open>Shutdown\<close>, each
  \<open>select\<close> takes the default case, and the worker's channel is the unbuffered one the
  constructor made. A call of \<open>Shutdown\<close> made then parks on its send: the loop has not
  reached its check, and the call has not returned. Whatever the transport would
  answer, the \<open>select\<close> of the next turn receives the signal, so no wakeup is missed:
  it hands the shutdown case a worker whose channel is empty again, with no sender
  parked (the call returns at that receive), and only then the turn closes the socket,
  terminates the context and returns the shutdown error.
\<close>

theorem shutdown_rendezvous:
  assumes "reachable w0 wd0"
    and "Receive_loop (map PollResult rs) w0 msg0 wd0 = Looping w msg wd"
  shows "Receive_live (map Turn rs) w0 msg0 wd0 = Looping w msg wd \<and>
         shutdown w = make_chan 0 \<and>
         fst (Shutdown w wd) = Parked \<and>
         Receive_live (map Turn rs @ [CallShutdown]) w0 msg0 wd0 =
           Looping (w\<lparr>shutdown := \<lparr>capacity = 0, buffer = [], parked = Some True\<rparr>\<rparr>) msg
             (wd\<lparr>trace := trace wd @ [Log Debug AttemptingShutdown]\<rparr>) \<and>
         (\<forall>r. select_shutdown (fst (snd (Shutdown w wd))) r = (ShutdownSignal, w)) \<and>
         (\<exists>s. socket w = Some s \<and>
            (\<forall>r rest. Receive_live (map Turn rs @ CallShutdown # Turn r # rest) w0 msg0 wd0 =
               Returns msg (Some ''Graceful shutdown'') w
                 (wd\<lparr>trace := trace wd @
                    [Log Debug AttemptingShutdown, Close s, Term, Log Debug ClosedAll]\<rparr>)))"
proof -
  have c0: "shutdown w0 = make_chan 0" using assms(1) by (rule reachable_shutdown)
  have live: "Receive_live (map Turn rs) w0 msg0 wd0 = Looping w msg wd"
    using assms(2) by (simp add: Receive_live_quiet [OF c0])
  have r: "reachable w wd" using assms by (rule Receive_loop_reachable)
  then have c: "shutdown w = make_chan 0" by (rule reachable_shutdown)
  from r obtain s where s: "socket w = Some s"
    using reachable_ready [of w wd] by (auto simp add: ready_state_def)
  have park: "Receive_live (map Turn rs @ [CallShutdown]) w0 msg0 wd0 =
      Looping (w\<lparr>shutdown := \<lparr>capacity = 0, buffer = [], parked = Some True\<rparr>\<rparr>) msg
        (wd\<lparr>trace := trace wd @ [Log Debug AttemptingShutdown]\<rparr>)"
    using live by (simp add: Receive_live_append Shutdown_parks [OF c])
  have take: "\<And>r rest. Receive_live (map Turn rs @ CallShutdown # Turn r # rest) w0 msg0 wd0 =
      Returns msg (Some ''Graceful shutdown'') w
        (wd\<lparr>trace := trace wd @
           [Log Debug AttemptingShutdown, Close s, Term, Log Debug ClosedAll]\<rparr>)"
    using live s
    by (simp add: Receive_live_append Shutdown_parks [OF c] select_parked [OF c]
        shutdown_iteration closing_def del: iteration.simps)
  show ?thesis
    using live c park take s
    by (simp add: Shutdown_parks [OF c] select_parked [OF c] del: Receive_live.simps)
qed

text \<open>The echo worker: a turn, the call, and the turn after the call.\<close>

theorem shutdown_rendezvous_witness:
  "reachable echo_worker echo_world \<and>
   Receive_loop [PollResult (PollFailed ''EINTR'')] echo_worker [] echo_world =
     Looping echo_worker []
       (echo_world\<lparr>trace := trace echo_world @
          [Poll 0 10, Log Error (PollingFailed ''EINTR'')]\<rparr>) \<and>
   Receive_live [Turn (PollFailed ''EINTR'')] echo_worker [] echo_world =
     Looping echo_worker []
       (echo_world\<lparr>trace := trace echo_world @
          [Poll 0 10, Log Error (PollingFailed ''EINTR'')]\<rparr>) \<and>
   Receive_live [Turn (PollFailed ''EINTR''), CallShutdown] echo_worker [] echo_world =
     Looping (echo_worker\<lparr>shutdown := \<lparr>capacity = 0, buffer = [], parked = Some True\<rparr>\<rparr>) []
       (echo_world\<lparr>trace := trace echo_world @
          [Poll 0 10, Log Error (PollingFailed ''EINTR''), Log Debug AttemptingShutdown]\<rparr>) \<and>
   Receive_live [Turn (PollFailed ''EINTR''), CallShutdown, Turn PollTimeout, Turn PollTimeout]
       echo_worker [] echo_world =
     Returns [] (Some ''Graceful shutdown'') echo_worker
       (echo_world\<lparr>trace := trace echo_world @
          [Poll 0 10, Log Error (PollingFailed ''EINTR''), Log Debug AttemptingShutdown,
           Close 0, Term, Log Debug ClosedAll]\<rparr>)"
proof -
  let ?wd = "echo_world\<lparr>trace := trace echo_world @
      [Poll 0 10, Log Error (PollingFailed ''EINTR'')]\<rparr>"
  have r: "reachable echo_worker echo_world"
    using newWorker_echo by (auto simp add: fresh_world_def intro: reachable.constructed)
  have l: "Receive_loop (map PollResult [PollFailed ''EINTR'']) echo_worker [] echo_world =
      Looping echo_worker [] ?wd"
    by (simp add: failed_iteration [of _ 0] echo_worker_def del: iteration.simps)
  have s: "socket echo_worker = Some 0" by (simp add: echo_worker_def)
  note t = shutdown_rendezvous [OF r l]
  have a: "Receive_live [Turn (PollFailed ''EINTR'')] echo_worker [] echo_world =
      Looping echo_worker [] ?wd"
    using t by simp
  have b: "Receive_live [Turn (PollFailed ''EINTR''), CallShutdown] echo_worker [] echo_world =
      Looping (echo_worker\<lparr>shutdown := \<lparr>capacity = 0, buffer = [], parked = Some True\<rparr>\<rparr>) []
        (?wd\<lparr>trace := trace ?wd @ [Log Debug AttemptingShutdown]\<rparr>)"
    using t by simp
  from t obtain s' where s': "socket echo_worker = Some s'"
    and c: "\<And>r rest. Receive_live (map Turn [PollFailed ''EINTR''] @ CallShutdown # Turn r # rest)
        echo_worker [] echo_world =
      Returns [] (Some ''Graceful shutdown'') echo_worker
        (?wd\<lparr>trace := trace ?wd @
           [Log Debug AttemptingShutdown, Close s', Term, Log Debug ClosedAll]\<rparr>)"
    by blast
  have "s' = 0" using s s' by simp
  then have d: "Receive_live
        [Turn (PollFailed ''EINTR''), CallShutdown, Turn PollTimeout, Turn PollTimeout]
        echo_worker [] echo_world =
      Returns [] (Some ''Graceful shutdown'') echo_worker
        (?wd\<lparr>trace := trace ?wd @
           [Log Debug AttemptingShutdown, Close 0, Term, Log Debug ClosedAll]\<rparr>)"
    using c [of PollTimeout "[Turn PollTimeout]"] by simp
  show ?thesis using r l a b d by (simp del: Receive_live.simps Receive_loop.simps)
qed

text \<open>
  The signal is not a buffered single slot: on the worker's channel the call of
  \<open>Shutdown\<close> parks, where a send on a channel of capacity 1 would return at once.
\<close>

theorem shutdown_parks_counterexample:
  "shutdown echo_worker = make_chan 0 \<and>
   fst (Shutdown echo_worker echo_world) = Parked \<and>
   fst (chan_send True (make_chan 1)) = Returned"
  by (simp add: Shutdown_def chan_send_def echo_worker_def make_chan_def logDebug_def emit_def)

end
